theory Spec2Isabelle
  imports Complex_Main "HOL-Library.Word" "HOL-Library.Char_ord"
begin

unbundle bit_operations_syntax

section \<open>Data model of the sketch\<close>

text \<open>
  The sketch runs on an ATtiny85: \<open>byte\<close> is 8 bits, the Arduino type \<open>word\<close> is 16 bits
  and \<open>unsigned long\<close> is 32 bits, all unsigned and wrapping.
\<close>

type_synonym byte = "8 word"
type_synonym word16 = "16 word"
type_synonym ulong = "32 word"

section \<open>The double of the target\<close>

text \<open>
  avr-gcc gives \<open>double\<close> the 32-bit format of \<open>float\<close>: IEEE binary32, 24 bits of
  significand, results rounded to the nearest value, ties to the even significand. A finite
  \<open>double\<close> is held as the rational it denotes. \<open>NonFinite\<close> stands for an infinity or a
  NaN; no value of the sketch is negative, so it is never the negative infinity.
\<close>

datatype double = Finite rat | NonFinite

text \<open>The integer nearest to \<open>q\<close>, the even one of two that are equally near.\<close>

definition rne :: "rat \<Rightarrow> int" where
  "rne q =
     (let n = \<lfloor>q\<rfloor>; r = q - of_int n
      in if r < 1 / 2 then n else if 1 / 2 < r then n + 1 else if even n then n else n + 1)"

text \<open>
  The spacing of the binary32 values around \<open>x\<close>: the power of two \<open>u\<close> with
  \<open>2 ^ 23 * u \<le> x < 2 ^ 24 * u\<close>, searched from 1 in at most 149 steps, which stops at
  \<open>2 ^ - 149\<close>, the spacing of the subnormal values.
\<close>

fun ulp32 :: "nat \<Rightarrow> rat \<Rightarrow> rat \<Rightarrow> rat" where
  "ulp32 0 u x = u"
| "ulp32 (Suc k) u x =
     (if 16777216 * u \<le> x then ulp32 k (2 * u) x
      else if x < 8388608 * u then ulp32 k (u / 2) x
      else u)"

text \<open>The binary32 value of the exact result \<open>x\<close> of an operation; from \<open>2 ^ 128\<close> on, infinity.\<close>

definition fl32 :: "rat \<Rightarrow> double" where
  "fl32 x =
     (let u = ulp32 149 1 \<bar>x\<bar>; y = of_int (rne (\<bar>x\<bar> / u)) * u
      in if 2 ^ 128 \<le> y then NonFinite else Finite (if x < 0 then - y else y))"

text \<open>
  The conversion of an \<open>unsigned long\<close> and the three operations the sketch uses. A zero
  divisor gives an infinity or a NaN; the divisors of the sketch are finite.
\<close>

definition ulong_to_double :: "ulong \<Rightarrow> double" where
  "ulong_to_double w = fl32 (of_nat (unat w))"

definition dmul :: "double \<Rightarrow> double \<Rightarrow> double" where
  "dmul a b =
     (case a of
        Finite x \<Rightarrow> (case b of Finite y \<Rightarrow> fl32 (x * y) | NonFinite \<Rightarrow> NonFinite)
      | NonFinite \<Rightarrow> NonFinite)"

definition ddiv :: "double \<Rightarrow> double \<Rightarrow> double" where
  "ddiv a b =
     (case a of
        Finite x \<Rightarrow>
          (case b of Finite y \<Rightarrow> if y = 0 then NonFinite else fl32 (x / y)
           | NonFinite \<Rightarrow> NonFinite)
      | NonFinite \<Rightarrow> NonFinite)"

definition dless :: "double \<Rightarrow> double \<Rightarrow> bool" where
  "dless a b =
     (case a of
        Finite x \<Rightarrow> (case b of Finite y \<Rightarrow> x < y | NonFinite \<Rightarrow> False)
      | NonFinite \<Rightarrow> False)"

section \<open>The globals\<close>

definition numberOfDigits :: nat where
  "numberOfDigits = 8"

definition wReset :: word16 where
  "wReset = 0x0100"

definition wSine :: word16 where
  "wSine = 0x0000"

definition wTriangle :: word16 where
  "wTriangle = 0x0002"

definition wRectangle :: word16 where
  "wRectangle = 0x0028"

definition wRectangle2 :: word16 where
  "wRectangle2 = 0x0020"

text \<open>
  The global variables, the two static counters of \<open>parseCommand\<close>, and \<open>chip\<close>: the
  words handed to \<open>AD9833_writeRegister\<close> so far, oldest first.
\<close>

record state =
  digitArray :: "byte list"
  multiplier :: ulong
  divider :: ulong
  debug :: byte
  echo :: byte
  waveType :: word16
  numeric :: byte
  decimal :: byte
  chip :: "word16 list"

section \<open>Register writes\<close>

text \<open>
  \<open>AD9833_writeRegister\<close> shifts the 16 bits of \<open>dat\<close> out on the three pins; the model
  records the word that is sent. The hexadecimal trace printed when \<open>debug\<close> is set goes to
  the serial line, which is not part of the state.
\<close>

definition AD9833_writeRegister :: "word16 \<Rightarrow> state \<Rightarrow> state" where
  "AD9833_writeRegister dat st = st\<lparr>chip := chip st @ [dat]\<rparr>"

definition AD9833_reset :: "state \<Rightarrow> state" where
  "AD9833_reset st = AD9833_writeRegister 0x2100 st"

section \<open>Reading the digit buffer\<close>

text \<open>\<open>while ( x-- ) y = y * 10;\<close> on a 32-bit \<open>y\<close>.\<close>

fun powerOf10_loop :: "nat \<Rightarrow> ulong \<Rightarrow> ulong" where
  "powerOf10_loop 0 y = y"
| "powerOf10_loop (Suc x) y = powerOf10_loop x (y * 10)"

definition powerOf10 :: "byte \<Rightarrow> ulong" where
  "powerOf10 x = powerOf10_loop (unat x) 1"

text \<open>The loop of \<open>parseValue\<close>: the 32-bit sum of \<open>digitArray[iii] * powerOf10(iii)\<close>.\<close>

definition parseValue_f :: "state \<Rightarrow> ulong" where
  "parseValue_f st =
     fold (\<lambda>iii f. f + ucast (digitArray st ! iii) * powerOf10 (of_nat iii))
       [0 ..< numberOfDigits] 0"

text \<open>\<open>return double( f ) * multiplier / divider;\<close>\<close>

definition parseValue :: "state \<Rightarrow> double" where
  "parseValue st =
     ddiv (dmul (ulong_to_double (parseValue_f st)) (ulong_to_double (multiplier st)))
       (ulong_to_double (divider st))"

section \<open>The register encoder\<close>

text \<open>
  The sketch calls \<open>round\<close>, read as the function of the C library: to the nearest integer,
  halves away from zero.
\<close>

definition c_round :: "rat \<Rightarrow> int" where
  "c_round x = (if 0 \<le> x then \<lfloor>x + 1 / 2\<rfloor> else - \<lfloor>- x + 1 / 2\<rfloor>)"

text \<open>
  The conversion of the rounded \<open>double\<close> to \<open>unsigned long\<close>. C++ defines it only for a
  value that fits the 32 bits; what the target yields otherwise is the parameter \<open>oor\<close>.
\<close>

definition to_ulong :: "(double \<Rightarrow> ulong) \<Rightarrow> double \<Rightarrow> ulong" where
  "to_ulong oor v =
     (case v of
        Finite x \<Rightarrow>
          if 0 \<le> c_round x \<and> c_round x < 2 ^ 32 then word_of_int (c_round x) else oor v
      | NonFinite \<Rightarrow> oor v)"

text \<open>The constant \<open>0x10000000UL / 25000000.0\<close>, a \<open>double\<close> division.\<close>

definition scale :: double where
  "scale = ddiv (ulong_to_double 0x10000000) (fl32 25000000)"

text \<open>The value of \<open>frequency\<close> after the scaling to register units (line 279).\<close>

definition scaled :: "bool \<Rightarrow> state \<Rightarrow> double" where
  "scaled isFreq st = (if isFreq then dmul (parseValue st) scale else parseValue st)"

text \<open>The condition of the rectangle branch (lines 278 and 280).\<close>

definition halfRate :: "bool \<Rightarrow> state \<Rightarrow> bool" where
  "halfRate isFreq st \<longleftrightarrow>
     isFreq \<and> wRectangle = waveType st \<and> dless (scaled isFreq st) (fl32 12000000)"

text \<open>The value of \<open>frequency\<close> that is rounded (line 285).\<close>

definition frequency :: "bool \<Rightarrow> state \<Rightarrow> double" where
  "frequency isFreq st =
     (if halfRate isFreq st then dmul (scaled isFreq st) (fl32 2) else scaled isFreq st)"

text \<open>\<open>regFrequency\<close> after line 285, and after the clamp of lines 286 and 287.\<close>

definition rounded :: "(double \<Rightarrow> ulong) \<Rightarrow> bool \<Rightarrow> state \<Rightarrow> ulong" where
  "rounded oor isFreq st = to_ulong oor (frequency isFreq st)"

definition regFrequency :: "(double \<Rightarrow> ulong) \<Rightarrow> bool \<Rightarrow> state \<Rightarrow> ulong" where
  "regFrequency oor isFreq st =
     (if 0x8000000 \<le> rounded oor isFreq st then 0x7FFFFFF else rounded oor isFreq st)"

definition AD9833_setFrequency :: "(double \<Rightarrow> ulong) \<Rightarrow> bool \<Rightarrow> state \<Rightarrow> state" where
  "AD9833_setFrequency oor isFreq st =
     (let r = regFrequency oor isFreq st;
          st1 = (if halfRate isFreq st then st\<lparr>waveType := wRectangle2\<rparr> else st);
          st2 = AD9833_writeRegister
                  (ucast ((ucast (ucast (r AND 0x3FFF) :: word16) :: ulong) OR 0x4000)) st1;
          st3 = AD9833_writeRegister
                  ((ucast (drop_bit 14 (r AND 0xFFFC000)) :: word16) OR 0x4000) st2
      in AD9833_writeRegister (0x2000 OR waveType st3) st3)"

section \<open>The command parser\<close>

text \<open>
  The loop of lines 161 and 162, from \<open>i = numberOfDigits - 1\<close> down to 1: slot \<open>i\<close> takes
  the old slot \<open>i - 1\<close>, or 0 when this is the first digit of an entry.
\<close>

fun shift_loop :: "nat \<Rightarrow> bool \<Rightarrow> byte list \<Rightarrow> byte list" where
  "shift_loop 0 keep a = a"
| "shift_loop (Suc i) keep a = shift_loop i keep (a[Suc i := (if keep then a ! i else 0)])"

definition toupper :: "char \<Rightarrow> char" where
  "toupper c =
     (if CHR ''a'' \<le> c \<and> c \<le> CHR ''z'' then char_of (of_char c - (32 :: nat)) else c)"

text \<open>Lines 171 to 175: what every character other than a digit or a dot does first.\<close>

definition finalize :: "state \<Rightarrow> state" where
  "finalize st =
     (if decimal st \<noteq> 0 \<and> numeric st \<noteq> 0
      then st\<lparr>divider := powerOf10 (numeric st - decimal st + 1)\<rparr> else st)
     \<lparr>numeric := 0, decimal := 0\<rparr>"

text \<open>
  The \<open>switch\<close> of lines 177 to 222 on the upper-cased character, on the state left by
  lines 171 to 175. The line feeds written back are serial output and are left out.
\<close>

definition dispatch :: "(double \<Rightarrow> ulong) \<Rightarrow> char \<Rightarrow> state \<Rightarrow> state" where
  "dispatch oor u s =
     (if u = CHR ''?'' then s
      else if u = CHR ''E'' then s\<lparr>echo := digitArray s ! 0\<rparr>
      else if u = CHR ''K'' then s\<lparr>multiplier := 1000\<rparr>
      else if u = CHR ''M'' then s\<lparr>multiplier := 1000000\<rparr>
      else if u = CHR ''N'' then AD9833_setFrequency oor False (s\<lparr>waveType := wSine\<rparr>)
      else if u = CHR ''O'' then AD9833_reset s
      else if u = CHR ''S'' then AD9833_setFrequency oor True (s\<lparr>waveType := wSine\<rparr>)
      else if u = CHR ''T'' then AD9833_setFrequency oor True (s\<lparr>waveType := wTriangle\<rparr>)
      else if u = CHR ''Z'' then s\<lparr>debug := digitArray s ! 0\<rparr>
      else s)"

text \<open>
  One pass of \<open>parseCommand\<close> with the character \<open>c\<close> read from the serial line; the
  echo of \<open>c\<close> is serial output and is left out.
\<close>

definition parseCommand :: "(double \<Rightarrow> ulong) \<Rightarrow> char \<Rightarrow> state \<Rightarrow> state" where
  "parseCommand oor c st =
     (if CHR ''0'' \<le> c \<and> c \<le> CHR ''9'' then
        st\<lparr>digitArray :=
             (shift_loop (numberOfDigits - 1) (numeric st \<noteq> 0) (digitArray st))
               [0 := of_nat (of_char c - of_char CHR ''0'')],
           numeric := numeric st + 1, multiplier := 1, divider := 1\<rparr>
      else if c = CHR ''.'' then st\<lparr>decimal := numeric st + 1\<rparr>
      else dispatch oor (toupper c) (finalize st))"

text \<open>The state after \<open>setup\<close>, which resets the chip twice, and a run over an input.\<close>

definition initial :: state where
  "initial =
     AD9833_reset (AD9833_reset
       \<lparr>digitArray = [0, 0, 0, 1, 0, 0, 0, 0], multiplier = 1, divider = 1, debug = 0,
        echo = 1, waveType = wReset, numeric = 0, decimal = 0, chip = []\<rparr>)"

definition run :: "(double \<Rightarrow> ulong) \<Rightarrow> string \<Rightarrow> state \<Rightarrow> state" where
  "run oor cs st = fold (parseCommand oor) cs st"

section \<open>Notions of the specification\<close>

text \<open>The characters that \<open>parseCommand\<close> collects as digits, and all that end an entry.\<close>

definition is_digit :: "char \<Rightarrow> bool" where
  "is_digit c \<longleftrightarrow> CHR ''0'' \<le> c \<and> c \<le> CHR ''9''"

definition terminator :: "char \<Rightarrow> bool" where
  "terminator c \<longleftrightarrow> \<not> is_digit c \<and> c \<noteq> CHR ''.''"

text \<open>The decimal number that a string of digits spells, read in entry order.\<close>

definition digit_of :: "char \<Rightarrow> nat" where
  "digit_of c = of_char c - of_char CHR ''0''"

definition spelled :: "string \<Rightarrow> nat" where
  "spelled cs = foldl (\<lambda>n c. 10 * n + digit_of c) 0 cs"

text \<open>The number held by a list of digits with the least significant one first.\<close>

fun digits_le :: "nat list \<Rightarrow> nat" where
  "digits_le [] = 0"
| "digits_le (d # ds) = d + 10 * digits_le ds"

text \<open>The upper-cased characters that have a case of their own in the \<open>switch\<close>.\<close>

definition recognized :: "char \<Rightarrow> bool" where
  "recognized u \<longleftrightarrow>
     u \<in> {CHR ''?'', CHR ''E'', CHR ''K'', CHR ''M'', CHR ''N'', CHR ''O'', CHR ''S'',
          CHR ''T'', CHR ''Z''}"

text \<open>
  The two frequency words as the specification writes them, and the 28-bit value that a
  reader puts together again from the low 14 bits of each.
\<close>

definition lsbWord :: "ulong \<Rightarrow> word16" where
  "lsbWord r = ucast (r AND 0x3FFF) OR 0x4000"

definition msbWord :: "ulong \<Rightarrow> word16" where
  "msbWord r = ucast (drop_bit 14 (r AND 0xFFFC000)) OR 0x4000"

definition recombine :: "word16 \<Rightarrow> word16 \<Rightarrow> ulong" where
  "recombine lsb msb = push_bit 14 (ucast msb AND 0x3FFF) OR (ucast lsb AND 0x3FFF)"

text \<open>The words written to the chip between two states, and the value they carry.\<close>

definition emitted :: "state \<Rightarrow> state \<Rightarrow> word16 list" where
  "emitted st st' = drop (length (chip st)) (chip st')"

definition emittedValue :: "state \<Rightarrow> state \<Rightarrow> ulong" where
  "emittedValue st st' = recombine (emitted st st' ! 0) (emitted st st' ! 1)"


section \<open>Rounding to the double of the target\<close>

text \<open>Rules that evaluate \<open>fl32\<close> on a numeral.\<close>

lemma ulp32_numeral:
  "ulp32 (numeral k) u x =
     (if 16777216 * u \<le> x then ulp32 (pred_numeral k) (2 * u) x
      else if x < 8388608 * u then ulp32 (pred_numeral k) (u / 2) x
      else u)"
  by (simp add: numeral_eq_Suc)

lemma floor_rat_numeral:
  "\<lfloor>(numeral a :: rat) / numeral b\<rfloor> = numeral a div numeral b"
  "\<lfloor>(numeral a :: rat)\<rfloor> = numeral a"
proof -
  have "\<lfloor>(of_int (numeral a) :: rat) / of_int (numeral b)\<rfloor> = numeral a div numeral b"
    by (rule floor_divide_of_int_eq)
  then show "\<lfloor>(numeral a :: rat) / numeral b\<rfloor> = numeral a div numeral b"
    by simp
qed simp

lemmas fl32_compute = fl32_def ulp32_numeral rne_def Let_def floor_rat_numeral

text \<open>The search ends at the spacing of the binade of \<open>x\<close>, within the range of binary32.\<close>

lemma p2_Suc: "(power_int 2 (j + 1) :: rat) = 2 * power_int 2 j"
  by (simp add: power_int_add_1')

lemma p2_pred: "(power_int 2 (j - 1) :: rat) = power_int 2 j / 2"
  using p2_Suc [of "j - 1"] by simp

lemma p2_mono: "i \<le> j \<Longrightarrow> (power_int 2 i :: rat) \<le> power_int 2 j"
  by (rule power_int_increasing) simp_all

lemma p2_double_le: "i < j \<Longrightarrow> 2 * (power_int 2 i :: rat) \<le> power_int 2 j"
  using p2_mono [of "i + 1" j] by (simp add: p2_Suc)

lemma p2_less_imp: "(power_int 2 i :: rat) < power_int 2 j \<Longrightarrow> i < j"
  using p2_mono [of j i] by (cases "i < j") simp_all

lemma ulp32_up:
  "8388608 * power_int 2 i \<le> x \<Longrightarrow>
   \<exists>j. i \<le> j \<and> j \<le> i + int f \<and> ulp32 f (power_int 2 i) x = power_int 2 j
     \<and> 8388608 * power_int 2 j \<le> x \<and> (x < 16777216 * power_int 2 j \<or> j = i + int f)"
proof (induction f arbitrary: i)
  case 0
  then show ?case by auto
next
  case (Suc f)
  show ?case
  proof (cases "16777216 * power_int 2 i \<le> x")
    case True
    then have "8388608 * power_int 2 (i + 1) \<le> x"
      by (simp add: p2_Suc)
    from Suc.IH [OF this] obtain j where j: "i + 1 \<le> j" "j \<le> i + 1 + int f"
      "ulp32 f (power_int 2 (i + 1)) x = power_int 2 j" "8388608 * power_int 2 j \<le> x"
      "x < 16777216 * power_int 2 j \<or> j = i + 1 + int f"
      by blast
    have "ulp32 (Suc f) (power_int 2 i) x = power_int 2 j"
      using True j(3) by (simp add: p2_Suc)
    with j show ?thesis
      by (intro exI [of _ j]) auto
  next
    case False
    with Suc.prems have "ulp32 (Suc f) (power_int 2 i) x = power_int 2 i"
      by simp
    with False Suc.prems show ?thesis
      by (intro exI [of _ i]) auto
  qed
qed

lemma ulp32_down:
  "x < 16777216 * power_int 2 i \<Longrightarrow>
   \<exists>j. j \<le> i \<and> i - int f \<le> j \<and> ulp32 f (power_int 2 i) x = power_int 2 j
     \<and> x < 16777216 * power_int 2 j \<and> (8388608 * power_int 2 j \<le> x \<or> j = i - int f)"
proof (induction f arbitrary: i)
  case 0
  then show ?case by auto
next
  case (Suc f)
  have nup: "\<not> 16777216 * power_int 2 i \<le> x"
    using Suc.prems by simp
  show ?case
  proof (cases "x < 8388608 * power_int 2 i")
    case True
    then have "x < 16777216 * power_int 2 (i - 1)"
      by (simp add: p2_pred)
    from Suc.IH [OF this] obtain j where j: "j \<le> i - 1" "i - 1 - int f \<le> j"
      "ulp32 f (power_int 2 (i - 1)) x = power_int 2 j" "x < 16777216 * power_int 2 j"
      "8388608 * power_int 2 j \<le> x \<or> j = i - 1 - int f"
      by blast
    have "ulp32 (Suc f) (power_int 2 i) x = power_int 2 j"
      using True nup j(3) by (simp add: p2_pred)
    with j show ?thesis
      by (intro exI [of _ j]) auto
  next
    case False
    with nup have "ulp32 (Suc f) (power_int 2 i) x = power_int 2 i"
      by simp
    with False Suc.prems show ?thesis
      by (intro exI [of _ i]) auto
  qed
qed

lemma ulp32_binade:
  "\<exists>j. - 149 \<le> j \<and> j \<le> 149 \<and> ulp32 149 1 x = power_int 2 j
     \<and> (8388608 * power_int 2 j \<le> x \<or> j = - 149)
     \<and> (x < 16777216 * power_int 2 j \<or> j = 149)"
proof (cases "8388608 \<le> x")
  case True
  then have "8388608 * power_int 2 0 \<le> x" by simp
  from ulp32_up [OF this, of 149] obtain j where j: "0 \<le> j" "j \<le> 0 + int 149"
    "ulp32 149 (power_int 2 0) x = power_int 2 j" "8388608 * power_int 2 j \<le> x"
    "x < 16777216 * power_int 2 j \<or> j = 0 + int 149"
    by blast
  from j(1) have "- 149 \<le> j" by simp
  moreover from j(2) have "j \<le> 149" by simp
  moreover from j(3) have "ulp32 149 1 x = power_int 2 j" by simp
  moreover from j(5) have "x < 16777216 * power_int 2 j \<or> j = 149" by simp
  ultimately show ?thesis using j(4) by blast
next
  case False
  then have "x < 16777216 * power_int 2 0" by simp
  from ulp32_down [OF this, of 149] obtain j where j: "j \<le> 0" "0 - int 149 \<le> j"
    "ulp32 149 (power_int 2 0) x = power_int 2 j" "x < 16777216 * power_int 2 j"
    "8388608 * power_int 2 j \<le> x \<or> j = 0 - int 149"
    by blast
  from j(2) have "- 149 \<le> j" by simp
  moreover from j(1) have "j \<le> 149" by simp
  moreover from j(3) have "ulp32 149 1 x = power_int 2 j" by simp
  moreover from j(5) have "8388608 * power_int 2 j \<le> x \<or> j = - 149" by simp
  ultimately show ?thesis using j(4) by blast
qed

lemma ulp32_eq:
  assumes j: "- 149 \<le> j" "j \<le> 149"
    and lo: "8388608 * power_int 2 j \<le> x \<or> j = - 149"
    and hi: "x < 16777216 * power_int 2 j"
  shows "ulp32 149 1 x = power_int 2 j"
proof -
  from ulp32_binade [of x] obtain k where k: "- 149 \<le> k" "k \<le> 149"
    "ulp32 149 1 x = power_int 2 k" "8388608 * power_int 2 k \<le> x \<or> k = - 149"
    "x < 16777216 * power_int 2 k \<or> k = 149"
    by blast
  have "\<not> j < k"
  proof
    assume jk: "j < k"
    with j k have "8388608 * power_int 2 k \<le> x" by auto
    moreover have "16777216 * power_int 2 j \<le> (8388608 * power_int 2 k :: rat)"
      using p2_double_le [OF jk] by simp
    ultimately show False using hi by simp
  qed
  moreover have "\<not> k < j"
  proof
    assume kj: "k < j"
    with j k have "x < 16777216 * power_int 2 k" by auto
    moreover have "16777216 * power_int 2 k \<le> (8388608 * power_int 2 j :: rat)"
      using p2_double_le [OF kj] by simp
    moreover from kj j k lo have "8388608 * power_int 2 j \<le> x" by auto
    ultimately show False by simp
  qed
  ultimately have "k = j" by simp
  with k(3) show ?thesis by simp
qed

lemma rne_of_int: "rne (of_int z) = z"
  by (simp add: rne_def)

lemma rne_nonneg: "0 \<le> q \<Longrightarrow> 0 \<le> rne q"
  by (auto simp: rne_def Let_def)

lemma rne_le: "q \<le> of_int z \<Longrightarrow> rne q \<le> z"
proof -
  assume q: "q \<le> of_int z"
  then have f: "\<lfloor>q\<rfloor> \<le> z" by (simp add: floor_le_iff)
  show ?thesis
  proof (cases "\<lfloor>q\<rfloor> = z")
    case True
    then have "of_int z \<le> q" using of_int_floor_le [of q] by simp
    with q have "q = of_int z" by simp
    then show ?thesis by (simp add: rne_of_int)
  next
    case False
    with f have "\<lfloor>q\<rfloor> + 1 \<le> z" by simp
    then show ?thesis by (auto simp: rne_def Let_def)
  qed
qed

lemma rne_ge: "of_int z \<le> q \<Longrightarrow> z \<le> rne q"
proof -
  assume "of_int z \<le> q"
  then have "z \<le> \<lfloor>q\<rfloor>" by (simp add: le_floor_iff)
  then show ?thesis by (auto simp: rne_def Let_def)
qed

lemma rne_below_half: "q < of_int z + 1 / 2 \<Longrightarrow> rne q \<le> z"
proof -
  assume q: "q < of_int z + 1 / 2"
  then have f: "\<lfloor>q\<rfloor> \<le> z" by (simp add: floor_le_iff) 
  show ?thesis
  proof (cases "\<lfloor>q\<rfloor> = z")
    case True
    with q have "q - of_int \<lfloor>q\<rfloor> < 1 / 2" by simp
    then show ?thesis using True by (simp add: rne_def Let_def)
  next
    case False
    with f have "\<lfloor>q\<rfloor> + 1 \<le> z" by simp
    then show ?thesis by (auto simp: rne_def Let_def)
  qed
qed

text \<open>
  The values of \<open>fl32\<close> are the binary32 values: a significand below \<open>2 ^ 24\<close> times a
  power of two. Rounding such a value again, or doubling it, is exact.
\<close>

lemma fl32_nonneg_unfold:
  "0 \<le> a \<Longrightarrow>
   fl32 a = (if 340282366920938463463374607431768211456
                  \<le> of_int (rne (a / ulp32 149 1 a)) * ulp32 149 1 a
             then NonFinite else Finite (of_int (rne (a / ulp32 149 1 a)) * ulp32 149 1 a))"
  by (simp add: fl32_def Let_def)

lemma fl32_exact:
  assumes j: "- 149 \<le> j" "j \<le> 149" and n: "0 \<le> n" "n < 16777216"
    and norm: "8388608 \<le> n \<or> j = - 149"
    and fin: "of_int n * power_int 2 j < (340282366920938463463374607431768211456 :: rat)"
  shows "fl32 (of_int n * power_int 2 j) = Finite (of_int n * power_int 2 j)"
proof -
  let ?p = "power_int 2 j :: rat"
  let ?x = "of_int n * ?p"
  have p: "0 < ?p" by simp
  have x: "0 \<le> ?x" using n(1) by simp
  have lo: "8388608 * ?p \<le> ?x \<or> j = - 149"
  proof (cases "j = - 149")
    case False
    with norm have "(8388608 :: rat) \<le> of_int n" by simp
    then have "8388608 * ?p \<le> ?x" by (rule mult_right_mono) simp
    then show ?thesis ..
  qed simp
  from n(2) have "(of_int n :: rat) < 16777216" by simp
  then have hi: "?x < 16777216 * ?p"
    using p by (rule mult_strict_right_mono)
  have u: "ulp32 149 1 ?x = ?p"
    using j lo hi by (rule ulp32_eq)
  have "?x / ?p = of_int n" by simp
  then have "of_int (rne (?x / ?p)) * ?p = ?x"
    by (simp only: rne_of_int)
  with fin show ?thesis
    by (simp only: fl32_nonneg_unfold [OF x] u) simp
qed

lemma fl32_parts:
  assumes f: "fl32 a = Finite y" and a: "0 \<le> a" and u: "ulp32 149 1 a = p"
  shows "y = of_int (rne (a / p)) * p"
    and "of_int (rne (a / p)) * p < (340282366920938463463374607431768211456 :: rat)"
proof -
  from f have "(if 340282366920938463463374607431768211456 \<le> of_int (rne (a / p)) * p
      then NonFinite else Finite (of_int (rne (a / p)) * p)) = Finite y"
    by (simp only: fl32_nonneg_unfold [OF a] u)
  then show "y = of_int (rne (a / p)) * p"
    and "of_int (rne (a / p)) * p < (340282366920938463463374607431768211456 :: rat)"
    by (simp_all split: if_splits)
qed

lemma fl32_repr:
  assumes f: "fl32 a = Finite y" and a: "0 \<le> a"
  shows "\<exists>n j. y = of_int n * power_int 2 j \<and> 0 \<le> n \<and> n < 16777216 \<and> - 149 \<le> j \<and> j \<le> 149
    \<and> (8388608 \<le> n \<or> j = - 149)"
proof -
  from ulp32_binade [of a] obtain j where j: "- 149 \<le> j" "j \<le> 149"
    and u: "ulp32 149 1 a = power_int 2 j"
    and lo: "8388608 * power_int 2 j \<le> a \<or> j = - 149"
    and hi: "a < 16777216 * power_int 2 j \<or> j = 149"
    by blast
  let ?p = "power_int 2 j :: rat"
  let ?n = "rne (a / ?p)"
  have p: "0 < ?p" by simp
  note y = fl32_parts(1) [OF f a u] and fin = fl32_parts(2) [OF f a u]
  have n0: "0 \<le> ?n"
    using a p by (intro rne_nonneg) simp
  have hi': "a < 16777216 * ?p"
  proof (rule ccontr)
    assume "\<not> a < 16777216 * ?p"
    with hi have j149: "j = 149" and "16777216 * ?p \<le> a" by auto
    then have "of_int 16777216 \<le> a / ?p"
      using p by (simp add: le_divide_eq)
    then have "16777216 \<le> ?n" by (rule rne_ge)
    then have "(16777216 :: rat) \<le> of_int ?n" by linarith
    then have "16777216 * ?p \<le> of_int ?n * ?p"
      by (rule mult_right_mono) simp
    from this fin have "16777216 * ?p < (340282366920938463463374607431768211456 :: rat)"
      by (rule le_less_trans)
    then show False by (simp add: j149)
  qed
  then have "a / ?p \<le> of_int 16777216"
    using p by (simp add: divide_le_eq)
  then have n_le: "?n \<le> 16777216" by (rule rne_le)
  have n_ge: "8388608 \<le> ?n \<or> j = - 149"
  proof (cases "j = - 149")
    case False
    with lo have "of_int 8388608 \<le> a / ?p"
      using p by (simp add: le_divide_eq)
    then have "8388608 \<le> ?n" by (rule rne_ge)
    then show ?thesis ..
  qed simp
  show ?thesis
  proof (cases "?n = 16777216")
    case False
    with n_le have lt: "?n < 16777216" by simp
    show ?thesis
    proof (intro exI conjI)
      show "y = of_int ?n * power_int 2 j" by (rule y)
    qed (use n0 lt j n_ge in simp_all)
  next
    case True
    from fin have "16777216 * ?p < (340282366920938463463374607431768211456 :: rat)"
      by (simp only: True of_int_numeral)
    then have "?p < 20282409603651670423947251286016"
      by simp
    also have "(20282409603651670423947251286016 :: rat) = power_int 2 104"
      by simp
    finally have j104: "j < 104" by (rule p2_less_imp)
    have "of_int ?n * ?p = of_int 8388608 * (2 * ?p)"
      by (simp only: True)
    then have y': "y = of_int 8388608 * power_int 2 (j + 1)"
      by (simp only: y p2_Suc)
    show ?thesis
    proof (intro exI conjI)
      show "y = of_int 8388608 * power_int 2 (j + 1)" by (rule y')
      show "8388608 \<le> (8388608 :: int) \<or> j + 1 = - 149" by simp
    qed (use j104 j in simp_all)
  qed
qed

lemma fl32_finite_bound:
  assumes "fl32 a = Finite y" and "0 \<le> a"
  shows "y < 340282366920938463463374607431768211456"
  using fl32_parts [OF assms refl] by (simp only:)

lemma fl32_nonneg:
  assumes "fl32 a = Finite y" and "0 \<le> a"
  shows "0 \<le> y"
proof -
  from fl32_repr [OF assms] obtain n j where y: "y = of_int n * power_int 2 j" and n: "0 \<le> n"
    by blast
  have "0 \<le> of_int n * (power_int 2 j :: rat)"
    using n by (intro mult_nonneg_nonneg) simp_all
  then show ?thesis by (simp only: y)
qed

lemma fl32_idem:
  assumes "fl32 a = Finite y" and "0 \<le> a"
  shows "fl32 y = Finite y"
proof -
  from fl32_repr [OF assms] obtain n j where y: "y = of_int n * power_int 2 j"
    and r: "0 \<le> n" "n < 16777216" "- 149 \<le> j" "j \<le> 149" "8388608 \<le> n \<or> j = - 149"
    by blast
  from fl32_finite_bound [OF assms]
  have "of_int n * power_int 2 j < (340282366920938463463374607431768211456 :: rat)"
    by (simp only: y)
  with r(3,4,1,2,5) have "fl32 (of_int n * power_int 2 j) = Finite (of_int n * power_int 2 j)"
    by (rule fl32_exact)
  then show ?thesis by (simp only: y)
qed

lemma fl32_double:
  assumes "fl32 a = Finite y" and "0 \<le> a"
    and b: "2 * y < 340282366920938463463374607431768211456"
  shows "fl32 (2 * y) = Finite (2 * y)"
proof -
  from fl32_repr [OF assms(1,2)] obtain n j where y: "y = of_int n * power_int 2 j"
    and r: "0 \<le> n" "n < 16777216" "- 149 \<le> j" "j \<le> 149" "8388608 \<le> n \<or> j = - 149"
    by blast
  show ?thesis
  proof (cases "8388608 \<le> n")
    case True
    have e: "2 * y = of_int n * power_int 2 (j + 1)"
      unfolding y p2_Suc by simp
    from True have "(8388608 :: rat) \<le> of_int n" by simp
    then have "8388608 * power_int 2 (j + 1) \<le> of_int n * (power_int 2 (j + 1) :: rat)"
      by (rule mult_right_mono) simp
    also have "\<dots> < 340282366920938463463374607431768211456"
      using b by (simp only: e)
    finally have "(power_int 2 (j + 1) :: rat) < 40564819207303340847894502572032"
      by simp
    also have "(40564819207303340847894502572032 :: rat) = power_int 2 105"
      by simp
    finally have "j + 1 < 105" by (rule p2_less_imp)
    then have j': "- 149 \<le> j + 1" "j + 1 \<le> 149" using r(3) by simp_all
    from b have fin: "of_int n * power_int 2 (j + 1) < (340282366920938463463374607431768211456 :: rat)"
      by (simp only: e)
    have n': "8388608 \<le> n \<or> j + 1 = - 149" using True ..
    from j' r(1,2) n' fin
    have "fl32 (of_int n * power_int 2 (j + 1)) = Finite (of_int n * power_int 2 (j + 1))"
      by (rule fl32_exact)
    then show ?thesis by (simp only: e)
  next
    case False
    with r(5) have j: "j = - 149" by simp
    have e: "2 * y = of_int (2 * n) * power_int 2 j"
      unfolding y by simp
    from b have fin: "of_int (2 * n) * power_int 2 j < (340282366920938463463374607431768211456 :: rat)"
      by (simp only: e)
    have n2: "0 \<le> 2 * n" "2 * n < 16777216" using r(1) False by simp_all
    have n': "8388608 \<le> 2 * n \<or> j = - 149" using j ..
    from r(3,4) n2 n' fin
    have "fl32 (of_int (2 * n) * power_int 2 j) = Finite (of_int (2 * n) * power_int 2 j)"
      by (rule fl32_exact)
    then show ?thesis by (simp only: e)
  qed
qed

lemma fl32_integral:
  assumes "fl32 a = Finite y" and "0 \<le> a" and big: "8388608 \<le> y"
  shows "\<exists>z. y = of_int z"
proof -
  from fl32_repr [OF assms(1,2)] obtain n j where y: "y = of_int n * power_int 2 j"
    and r: "0 \<le> n" "n < 16777216" "- 149 \<le> j" "j \<le> 149" "8388608 \<le> n \<or> j = - 149"
    by blast
  have "0 \<le> j"
  proof (rule ccontr)
    assume "\<not> 0 \<le> j"
    then have "j \<le> - 1" by simp
    then have "(power_int 2 j :: rat) \<le> power_int 2 (- 1)" by (rule p2_mono)
    then have "(power_int 2 j :: rat) \<le> 1 / 2" by (simp add: power_int_minus)
    moreover from r(2) have "(of_int n :: rat) \<le> 16777215"
      by simp
    ultimately have "of_int n * power_int 2 j \<le> (16777215 :: rat) * (1 / 2)"
      using r(1) by (intro mult_mono) simp_all
    with big show False unfolding y by simp
  qed
  then have "(power_int 2 j :: rat) = of_int (2 ^ nat j)"
    by (simp add: power_int_def)
  then have "of_int n * (power_int 2 j :: rat) = of_int (n * 2 ^ nat j)"
    by simp
  then have "y = of_int (n * 2 ^ nat j)"
    by (simp only: y)
  then show ?thesis ..
qed

lemma fl32_nat:
  assumes "n \<le> 16777216"
  shows "fl32 (of_nat n) = Finite (of_nat n)"
proof -
  let ?x = "of_nat n :: rat"
  from ulp32_binade [of ?x] obtain j where j: "- 149 \<le> j" "j \<le> 149"
    and u: "ulp32 149 1 ?x = power_int 2 j"
    and lo: "8388608 * power_int 2 j \<le> ?x \<or> j = - 149"
    and hi: "?x < 16777216 * power_int 2 j \<or> j = 149"
    by blast
  let ?p = "power_int 2 j :: rat"
  have x: "0 \<le> ?x" by simp
  from assms have "?x \<le> of_nat 16777216" by (simp only: of_nat_le_iff)
  then have xle: "?x \<le> 16777216" by simp
  have j1: "j \<le> 1"
  proof (rule ccontr)
    assume "\<not> j \<le> 1"
    then have j2: "2 \<le> j" by simp
    then have "(power_int 2 2 :: rat) \<le> ?p" by (rule p2_mono)
    then have "4 \<le> ?p" by simp
    moreover from j2 lo have "8388608 * ?p \<le> ?x" by auto
    ultimately show False using xle by simp
  qed
  have "\<exists>z. ?x / ?p = of_int z"
  proof (cases "j = 1")
    case True
    with lo have "16777216 \<le> ?x" by simp
    with xle have "?x = 16777216" by simp
    then have "?x / ?p = of_int 8388608" by (simp add: True)
    then show ?thesis ..
  next
    case False
    with j1 have "j \<le> 0" by simp
    then have "?p = 1 / 2 ^ nat (- j)"
      by (auto simp: power_int_def inverse_eq_divide power_one_over)
    then have "?x / ?p = of_int (int n * 2 ^ nat (- j))"
      by simp
    then show ?thesis ..
  qed
  then obtain z where z: "?x / ?p = of_int z" ..
  then have "rne (?x / ?p) = z"
    by (simp only: rne_of_int)
  then have "of_int (rne (?x / ?p)) * ?p = ?x / ?p * ?p"
    by (simp only: z)
  then have e: "of_int (rne (?x / ?p)) * ?p = ?x"
    by simp
  have "?x < 340282366920938463463374607431768211456"
    using xle by simp
  then show ?thesis
    by (simp only: fl32_nonneg_unfold [OF x] u e) simp
qed

lemma fl32_2p27:
  assumes a: "0 \<le> a" "a < 134217724"
  shows "\<exists>y. fl32 a = Finite y \<and> y \<le> 134217720"
proof -
  from ulp32_binade [of a] obtain j where j: "- 149 \<le> j" "j \<le> 149"
    and u: "ulp32 149 1 a = power_int 2 j"
    and lo: "8388608 * power_int 2 j \<le> a \<or> j = - 149"
    and hi: "a < 16777216 * power_int 2 j \<or> j = 149"
    by blast
  let ?p = "power_int 2 j :: rat"
  let ?n = "rne (a / ?p)"
  have p: "0 < ?p" by simp
  have j3: "j \<le> 3"
  proof (rule ccontr)
    assume "\<not> j \<le> 3"
    then have j4: "4 \<le> j" by simp
    then have "(power_int 2 4 :: rat) \<le> ?p" by (rule p2_mono)
    then have "16 \<le> ?p" by simp
    moreover from j4 lo have "8388608 * ?p \<le> a" by auto
    ultimately show False using a(2) by simp
  qed
  with hi have hi': "a < 16777216 * ?p" by auto
  have n0: "0 \<le> ?n" using a(1) p by (intro rne_nonneg) simp
  have v: "of_int ?n * ?p \<le> (134217720 :: rat)"
  proof (cases "j = 3")
    case True
    then have p8: "?p = 8" by simp
    from a(2) have "a / 8 < of_int 16777215 + 1 / 2" by simp
    then have "rne (a / 8) \<le> 16777215" by (rule rne_below_half)
    then have "(of_int (rne (a / 8)) :: rat) \<le> 16777215" by simp
    then have "of_int (rne (a / 8)) * 8 \<le> (134217720 :: rat)" by simp
    then show ?thesis unfolding p8 .
  next
    case False
    with j3 have "j \<le> 2" by simp
    then have "?p \<le> power_int 2 2" by (rule p2_mono)
    then have p4: "?p \<le> 4" by simp
    from hi' have "a / ?p \<le> of_int 16777216"
      using p by (simp add: divide_le_eq)
    then have "?n \<le> 16777216" by (rule rne_le)
    then have "(of_int ?n :: rat) \<le> 16777216" by simp
    then have "of_int ?n * ?p \<le> (16777216 :: rat) * 4"
      using p4 n0 by (intro mult_mono) simp_all
    then show ?thesis by simp
  qed
  then have "\<not> 340282366920938463463374607431768211456 \<le> of_int ?n * ?p" by simp
  then have "fl32 a = Finite (of_int ?n * ?p)"
    by (simp only: fl32_nonneg_unfold [OF a(1)] u if_False)
  with v show ?thesis by blast
qed

lemma c_round_le: "x \<le> of_int z \<Longrightarrow> 0 \<le> x \<Longrightarrow> \<lfloor>x + 1 / 2\<rfloor> \<le> z"
  by (simp add: floor_le_iff)

section \<open>The digit buffer\<close>

lemma length_8_list:
  assumes "length (a :: 'a list) = 8"
  obtains a0 a1 a2 a3 a4 a5 a6 a7 where "a = [a0, a1, a2, a3, a4, a5, a6, a7]"
  using assms by (auto simp: length_Suc_conv eval_nat_numeral)

lemma shift_loop_8:
  "(shift_loop 7 keep [a0, a1, a2, a3, a4, a5, a6, a7])[0 := d] =
     (if keep then [d, a0, a1, a2, a3, a4, a5, a6] else [d, 0, 0, 0, 0, 0, 0, 0])"
  by (simp add: eval_nat_numeral)

lemma upt_8: "[0 ..< 8] = [0, 1, 2, 3, 4, 5, 6, 7]"
  by (simp add: upt_rec)

lemma powerOf10_loop_numeral:
  "powerOf10_loop (numeral k) y = powerOf10_loop (pred_numeral k) (y * 10)"
  by (simp add: numeral_eq_Suc)

lemma powerOf10_small:
  "powerOf10 0 = 1" "powerOf10 1 = 10" "powerOf10 2 = 100" "powerOf10 3 = 1000"
  "powerOf10 4 = 10000" "powerOf10 5 = 100000" "powerOf10 6 = 1000000"
  "powerOf10 7 = 10000000"
  by (simp_all add: powerOf10_def powerOf10_loop_numeral)

lemma parseValue_f_8:
  "digitArray st = [a0, a1, a2, a3, a4, a5, a6, a7] \<Longrightarrow>
   parseValue_f st =
     ucast a0 + ucast a1 * 10 + ucast a2 * 100 + ucast a3 * 1000 + ucast a4 * 10000
     + ucast a5 * 100000 + ucast a6 * 1000000 + ucast a7 * 10000000"
  by (simp add: parseValue_f_def numberOfDigits_def upt_8 powerOf10_small)

lemma digits_le_bound: "\<forall>d \<in> set ds. d \<le> 9 \<Longrightarrow> digits_le ds < 10 ^ length ds"
  by (induction ds) auto

lemma digits_le_append: "digits_le (xs @ ys) = digits_le xs + 10 ^ length xs * digits_le ys"
  by (induction xs) (auto simp: algebra_simps)

lemma digits_le_zeros: "digits_le (replicate k 0) = 0"
  by (induction k) auto

lemma digits_le_rev: "digits_le (rev (map digit_of cs)) = spelled cs"
  by (induction cs rule: rev_induct) (auto simp: spelled_def)

lemma digits_le_sum: "digits_le xs = (\<Sum>i < length xs. xs ! i * 10 ^ i)"
  by (induction xs)
    (simp_all del: sum.lessThan_Suc add: sum.lessThan_Suc_shift sum_distrib_left mult_ac)

text \<open>With decimal digits in its eight slots the 32-bit sum of \<open>parseValue\<close> does not wrap.\<close>

lemma parseValue_f_digits:
  assumes len: "length (digitArray st) = 8"
    and dig: "\<forall>d \<in> set (digitArray st). d \<le> 9"
  shows "unat (parseValue_f st) = digits_le (map unat (digitArray st))"
proof -
  from len obtain a0 a1 a2 a3 a4 a5 a6 a7
    where a: "digitArray st = [a0, a1, a2, a3, a4, a5, a6, a7]"
    by (rule length_8_list)
  let ?n = "digits_le (map unat (digitArray st))"
  have "\<forall>d \<in> set (map unat (digitArray st)). d \<le> 9"
    using dig by (auto simp: word_le_nat_alt)
  from digits_le_bound [OF this] have b: "?n < 10 ^ 8" using len by simp
  have "parseValue_f st = of_nat ?n"
    by (simp add: parseValue_f_8 [OF a] a)
  then have "unat (parseValue_f st) = ?n mod 2 ^ 32"
    by (simp add: unat_of_nat)
  with b show ?thesis by simp
qed

lemma parseValue_cong:
  "digitArray s = digitArray t \<Longrightarrow> multiplier s = multiplier t \<Longrightarrow> divider s = divider t \<Longrightarrow>
   parseValue s = parseValue t"
  by (simp add: parseValue_def parseValue_f_def)

section \<open>Single steps of the parser\<close>

lemma digit_of_le: "is_digit c \<Longrightarrow> digit_of c \<le> 9"
  by (auto simp: is_digit_def digit_of_def less_eq_char_def)

lemma unat_digit: "is_digit c \<Longrightarrow> unat (of_nat (digit_of c) :: byte) = digit_of c"
  using digit_of_le [of c] by (simp add: unat_of_nat)

lemma parseCommand_digit:
  assumes "is_digit c" and "length (digitArray st) = 8"
  shows "parseCommand oor c st =
    st\<lparr>digitArray := of_nat (digit_of c) #
          (if numeric st \<noteq> 0 then butlast (digitArray st) else replicate 7 0),
       numeric := numeric st + 1, multiplier := 1, divider := 1\<rparr>"
proof -
  from assms(2) obtain a0 a1 a2 a3 a4 a5 a6 a7
    where a: "digitArray st = [a0, a1, a2, a3, a4, a5, a6, a7]"
    by (rule length_8_list)
  have r: "replicate 7 (0 :: byte) = [0, 0, 0, 0, 0, 0, 0]"
    by (simp add: eval_nat_numeral)
  show ?thesis
    using assms(1)
    by (simp add: parseCommand_def is_digit_def numberOfDigits_def a shift_loop_8 r
        digit_of_def)
qed

lemma parseCommand_terminator:
  "terminator c \<Longrightarrow> parseCommand oor c st = dispatch oor (toupper c) (finalize st)"
  by (cases "CHR ''0'' \<le> c") (simp_all add: parseCommand_def terminator_def is_digit_def)

lemma AD9833_setFrequency_frame:
  "digitArray (AD9833_setFrequency oor b st) = digitArray st"
  "multiplier (AD9833_setFrequency oor b st) = multiplier st"
  "divider (AD9833_setFrequency oor b st) = divider st"
  "numeric (AD9833_setFrequency oor b st) = numeric st"
  "decimal (AD9833_setFrequency oor b st) = decimal st"
  "echo (AD9833_setFrequency oor b st) = echo st"
  "debug (AD9833_setFrequency oor b st) = debug st"
  by (simp_all add: AD9833_setFrequency_def AD9833_writeRegister_def Let_def)

lemma parseValue_terminator:
  assumes "terminator t" and "toupper t \<noteq> CHR ''K''" and "toupper t \<noteq> CHR ''M''"
  shows "parseValue (parseCommand oor t st) = parseValue (finalize st)"
  using assms
  by (intro parseValue_cong)
    (simp_all add: parseCommand_terminator dispatch_def
      AD9833_setFrequency_frame AD9833_reset_def AD9833_writeRegister_def)

lemma run_snoc: "run oor (cs @ [c]) st = parseCommand oor c (run oor cs st)"
  by (simp add: run_def)

lemma run_Nil: "run oor [] st = st"
  by (simp add: run_def)

lemma run_Cons: "run oor (c # cs) st = run oor cs (parseCommand oor c st)"
  by (simp add: run_def)

lemma initial_fresh:
  "length (digitArray initial) = 8" "numeric initial = 0" "decimal initial = 0"
  by (simp_all add: initial_def AD9833_reset_def AD9833_writeRegister_def)

lemma finalize_fields:
  "digitArray (finalize st) = digitArray st" "multiplier (finalize st) = multiplier st"
  "echo (finalize st) = echo st" "debug (finalize st) = debug st"
  "waveType (finalize st) = waveType st" "chip (finalize st) = chip st"
  "numeric (finalize st) = 0" "decimal (finalize st) = 0"
  "divider (finalize st) =
     (if decimal st \<noteq> 0 \<and> numeric st \<noteq> 0 then powerOf10 (numeric st - decimal st + 1)
      else divider st)"
  by (simp_all add: finalize_def)

lemma finalize_idle: "numeric st = 0 \<Longrightarrow> decimal st = 0 \<Longrightarrow> finalize st = st"
  by (simp add: finalize_def)

lemma char_class:
  "is_digit CHR ''0''" "is_digit CHR ''1''" "is_digit CHR ''5''"
  "\<not> is_digit CHR ''.''" "terminator CHR ''K''" "terminator CHR ''S''"
  "toupper CHR ''K'' = CHR ''K''" "toupper CHR ''S'' = CHR ''S''"
  by (simp_all add: is_digit_def terminator_def toupper_def less_eq_char_def)

lemma toupper_cmds:
  "toupper CHR ''S'' = CHR ''S''" "toupper CHR ''s'' = CHR ''S''"
  "toupper CHR ''T'' = CHR ''T''" "toupper CHR ''t'' = CHR ''T''"
  "toupper CHR ''N'' = CHR ''N''" "toupper CHR ''n'' = CHR ''N''"
  "toupper CHR ''O'' = CHR ''O''" "toupper CHR ''o'' = CHR ''O''"
  "terminator CHR ''S''" "terminator CHR ''s''" "terminator CHR ''T''" "terminator CHR ''t''"
  "terminator CHR ''N''" "terminator CHR ''n''" "terminator CHR ''O''" "terminator CHR ''o''"
  by (simp_all add: toupper_def terminator_def is_digit_def less_eq_char_def char_of_def
      bit_Suc_0_iff)

lemma X_unrecognized: "terminator CHR ''X''" "\<not> recognized (toupper CHR ''X'')"
  by (simp_all add: terminator_def is_digit_def recognized_def toupper_def less_eq_char_def)

lemma digit_of_vals: "digit_of CHR ''0'' = 0" "digit_of CHR ''1'' = 1" "digit_of CHR ''5'' = 5"
  by (simp_all add: digit_of_def)

lemma zeros7: "replicate 7 (0 :: byte) = [0, 0, 0, 0, 0, 0, 0]"
  by (simp add: eval_nat_numeral)

lemma parseCommand_dot: "parseCommand oor CHR ''.'' st = st\<lparr>decimal := numeric st + 1\<rparr>"
  by (simp add: parseCommand_def less_eq_char_def)


lemma parseCommand_K:
  "parseCommand oor CHR ''K'' st = (finalize st)\<lparr>multiplier := 1000\<rparr>"
  by (simp add: parseCommand_terminator char_class dispatch_def)

lemma dispatch_unrecognized: "\<not> recognized u \<Longrightarrow> dispatch oor u s = s"
  by (simp add: recognized_def dispatch_def)

lemma parseCommand_unrecognized:
  "terminator c \<Longrightarrow> \<not> recognized (toupper c) \<Longrightarrow> parseCommand oor c st = finalize st"
  by (simp add: parseCommand_terminator dispatch_unrecognized)

lemma parseCommand_S:
  "c = CHR ''S'' \<or> c = CHR ''s'' \<Longrightarrow>
   parseCommand oor c st = AD9833_setFrequency oor True ((finalize st)\<lparr>waveType := wSine\<rparr>)"
  by (auto simp: parseCommand_terminator toupper_cmds dispatch_def)

lemma parseCommand_T:
  "c = CHR ''T'' \<or> c = CHR ''t'' \<Longrightarrow>
   parseCommand oor c st = AD9833_setFrequency oor True ((finalize st)\<lparr>waveType := wTriangle\<rparr>)"
  by (auto simp: parseCommand_terminator toupper_cmds dispatch_def)

lemma parseCommand_N:
  "c = CHR ''N'' \<or> c = CHR ''n'' \<Longrightarrow>
   parseCommand oor c st = AD9833_setFrequency oor False ((finalize st)\<lparr>waveType := wSine\<rparr>)"
  by (auto simp: parseCommand_terminator toupper_cmds dispatch_def)

section \<open>The words written by the encoder\<close>

lemma lsb_cast:
  "(ucast ((ucast (x :: word16) :: ulong) OR 0x4000) :: word16) = x OR 0x4000"
proof -
  have e: "(0x4000 :: ulong) = ucast (0x4000 :: word16)" by simp
  have "(ucast (x :: word16) :: ulong) OR 0x4000 = ucast (x OR 0x4000)"
    by (subst e) (simp only: unsigned_or_eq)
  moreover have "(ucast (ucast y :: ulong) :: word16) = y" for y :: word16
    by (rule bit_word_eqI) (simp add: bit_simps)
  ultimately show ?thesis by simp
qed

lemma AD9833_setFrequency_chip:
  "chip (AD9833_setFrequency oor b st) =
     chip st @ [lsbWord (regFrequency oor b st), msbWord (regFrequency oor b st),
       0x2000 OR (if halfRate b st then wRectangle2 else waveType st)]"
  by (simp add: AD9833_setFrequency_def AD9833_writeRegister_def Let_def lsbWord_def
      msbWord_def lsb_cast)

lemma AD9833_setFrequency_waveType:
  "waveType (AD9833_setFrequency oor b st) = (if halfRate b st then wRectangle2 else waveType st)"
  by (simp add: AD9833_setFrequency_def AD9833_writeRegister_def Let_def)

lemma wave_distinct:
  "wRectangle \<noteq> wSine" "wRectangle \<noteq> wTriangle" "wRectangle \<noteq> wReset"
  "wRectangle2 \<noteq> wSine" "wRectangle2 \<noteq> wTriangle" "wRectangle2 \<noteq> wReset"
  by (simp_all add: wRectangle_def wRectangle2_def wSine_def wTriangle_def wReset_def)

lemma halfRate_sine_triangle:
  "\<not> halfRate b (s\<lparr>waveType := wSine\<rparr>)" "\<not> halfRate b (s\<lparr>waveType := wTriangle\<rparr>)"
  by (simp_all add: halfRate_def wave_distinct)

text \<open>The two frequency words carry the low 28 bits of the register value.\<close>

lemma low_bits_of_word:
  "n < 16 \<Longrightarrow>
   take_bit n (ucast ((ucast (take_bit n (r :: ulong)) :: word16) OR push_bit n 1) :: ulong)
     = take_bit n r"
  by (rule bit_word_eqI) (auto simp: bit_simps)

lemma high_bits_of_word:
  "n < 16 \<Longrightarrow>
   take_bit n (ucast ((ucast (drop_bit n (r AND push_bit n (mask n))) :: word16)
       OR push_bit n 1) :: ulong)
     = take_bit n (drop_bit n (r :: ulong))"
  by (rule bit_word_eqI) (auto simp: bit_simps)

lemma join_bits:
  "push_bit n (take_bit n (drop_bit n r)) OR take_bit n r = take_bit (n + n) (r :: ulong)"
  by (rule bit_word_eqI) (auto simp: bit_simps)

lemma and_3FFF: "(x :: ulong) AND 0x3FFF = take_bit 14 x"
proof -
  have "(0x3FFF :: ulong) = mask 14" by (simp add: mask_eq_exp_minus_1)
  then show ?thesis by (simp only: take_bit_eq_mask)
qed

lemma recombine_words: "recombine (lsbWord r) (msbWord r) = take_bit 28 r"
proof -
  have p: "(14 :: nat) < 16" by simp
  have c1: "(0x4000 :: word16) = push_bit 14 1" by simp
  have c2: "(0xFFFC000 :: ulong) = push_bit 14 (mask 14)" by (simp add: mask_eq_exp_minus_1)
  have l: "lsbWord r = ucast (take_bit 14 r) OR push_bit 14 1"
    by (simp only: lsbWord_def and_3FFF c1)
  have m: "msbWord r = ucast (drop_bit 14 (r AND push_bit 14 (mask 14))) OR push_bit 14 1"
    by (simp only: msbWord_def c1 c2)
  have "recombine (lsbWord r) (msbWord r) =
      push_bit 14 (take_bit 14 (ucast (msbWord r))) OR take_bit 14 (ucast (lsbWord r))"
    by (simp only: recombine_def and_3FFF)
  also have "\<dots> = push_bit 14 (take_bit 14 (drop_bit 14 r)) OR take_bit 14 r"
    by (simp only: l m low_bits_of_word [OF p] high_bits_of_word [OF p])
  also have "\<dots> = take_bit (14 + 14) r"
    by (rule join_bits)
  finally show ?thesis by simp
qed

lemma take_bit_28: "r \<le> 0x7FFFFFF \<Longrightarrow> take_bit 28 (r :: ulong) = r"
proof -
  assume "r \<le> 0x7FFFFFF"
  then have "r < 2 ^ 28" by (simp add: word_le_nat_alt word_less_nat_alt)
  then show ?thesis
    by (simp only: take_bit_eq_mask less_mask_eq)
qed

lemma regFrequency_le: "regFrequency oor b st \<le> 0x7FFFFFF"
  by (simp add: regFrequency_def word_le_nat_alt)

lemma emitted_cong: "chip a = chip b \<Longrightarrow> emitted a x = emitted b x"
  by (simp add: emitted_def)

lemma emitted_setFrequency:
  "emitted st (AD9833_setFrequency oor b st) =
     [lsbWord (regFrequency oor b st), msbWord (regFrequency oor b st),
      0x2000 OR (if halfRate b st then wRectangle2 else waveType st)]"
  by (simp add: emitted_def AD9833_setFrequency_chip)

lemma emittedValue_setFrequency:
  "emittedValue st (AD9833_setFrequency oor b st) = regFrequency oor b st"
  by (simp add: emittedValue_def emitted_setFrequency recombine_words take_bit_28
      regFrequency_le)

section \<open>Rounding\<close>

lemma c_round_nonneg: "0 \<le> x \<Longrightarrow> c_round x = round x"
  by (simp add: c_round_def round_def)


lemma to_ulong_in_range:
  "0 \<le> c_round x \<Longrightarrow> c_round x < 2 ^ 32 \<Longrightarrow> uint (to_ulong oor (Finite x)) = c_round x"
  by (simp add: to_ulong_def uint_word_of_int take_bit_int_eq_self)

lemma uint_emittedValue:
  assumes "frequency b st = Finite x" and "0 \<le> c_round x" and "c_round x < 2 ^ 32"
  shows "uint (emittedValue st (AD9833_setFrequency oor b st)) = min (c_round x) 0x7FFFFFF"
proof -
  have "uint (rounded oor b st) = c_round x"
    using assms by (simp add: rounded_def to_ulong_in_range)
  then show ?thesis
    by (auto simp: emittedValue_setFrequency regFrequency_def word_le_def)
qed

section \<open>Values of explicit buffers\<close>

lemma parseValue_8:
  assumes "digitArray st = [a0, a1, a2, a3, a4, a5, a6, a7]"
  shows "parseValue st =
    ddiv (dmul (ulong_to_double (ucast a0 + ucast a1 * 10 + ucast a2 * 100 + ucast a3 * 1000
            + ucast a4 * 10000 + ucast a5 * 100000 + ucast a6 * 1000000
            + ucast a7 * 10000000))
          (ulong_to_double (multiplier st))) (ulong_to_double (divider st))"
  by (simp add: parseValue_def parseValue_f_8 [OF assms])

lemma initial_fields:
  "digitArray initial = [0, 0, 0, 1, 0, 0, 0, 0]" "multiplier initial = 1" "divider initial = 1"
  "waveType initial = wReset" "chip initial = [0x2100, 0x2100]"
  by (simp_all add: initial_def AD9833_reset_def AD9833_writeRegister_def)

section \<open>Values of the sketch in the double of the target\<close>

lemmas dbl_compute = ulong_to_double_def dmul_def ddiv_def dless_def fl32_compute

lemma double_consts:
  "ulong_to_double 0 = Finite 0" "ulong_to_double 1 = Finite 1"
  "ulong_to_double 10 = Finite 10" "ulong_to_double 1000 = Finite 1000"
  "ulong_to_double 1000000 = Finite 1000000"
  "fl32 2 = Finite 2" "fl32 12000000 = Finite 12000000"
  by (simp_all add: ulong_to_double_def fl32_compute)

lemma scale_value: "scale = Finite (11258999 / 1048576)"
  by (simp add: scale_def ulong_to_double_def ddiv_def fl32_compute)

lemma ulong_to_double_nonneg:
  "ulong_to_double w = Finite x \<Longrightarrow> 0 \<le> x"
  unfolding ulong_to_double_def by (erule fl32_nonneg) (rule of_nat_0_le_iff)

text \<open>A finite value of \<open>parseValue\<close> is the rounding of a quotient that is not negative.\<close>

lemma parseValue_float:
  assumes "parseValue st = Finite V"
  shows "\<exists>q. 0 \<le> q \<and> fl32 q = Finite V"
proof -
  from assms obtain p d where p: "dmul (ulong_to_double (parseValue_f st))
      (ulong_to_double (multiplier st)) = Finite p"
    and d: "ulong_to_double (divider st) = Finite d" and nz: "d \<noteq> 0"
    and V: "fl32 (p / d) = Finite V"
    by (auto simp: parseValue_def ddiv_def split: double.splits if_splits)
  from p obtain f m where f: "ulong_to_double (parseValue_f st) = Finite f"
    and m: "ulong_to_double (multiplier st) = Finite m" and fm: "fl32 (f * m) = Finite p"
    by (auto simp: dmul_def split: double.splits)
  have "0 \<le> f * m"
    using ulong_to_double_nonneg [OF f] ulong_to_double_nonneg [OF m] by simp
  with fm have "0 \<le> p" by (rule fl32_nonneg)
  moreover have "0 \<le> d" using d by (rule ulong_to_double_nonneg)
  ultimately have "0 \<le> p / d" by simp
  with V show ?thesis by blast
qed

text \<open>With both factors 1 the value is the sum of the buffer, converted once.\<close>

lemma parseValue_unit:
  assumes "multiplier st = 1" and "divider st = 1"
  shows "parseValue st = fl32 (of_nat (unat (parseValue_f st)))"
proof (cases "fl32 (of_nat (unat (parseValue_f st)))")
  case NonFinite
  then have "ulong_to_double (parseValue_f st) = NonFinite"
    unfolding ulong_to_double_def .
  with NonFinite show ?thesis
    by (simp add: parseValue_def dmul_def ddiv_def)
next
  case (Finite y)
  have "fl32 y = Finite y"
    using Finite by (rule fl32_idem) (rule of_nat_0_le_iff)
  moreover have "ulong_to_double (parseValue_f st) = Finite y"
    using Finite unfolding ulong_to_double_def .
  ultimately show ?thesis
    using Finite by (simp add: parseValue_def assms double_consts dmul_def ddiv_def)
qed


section \<open>Entering a number\<close>

text \<open>
  Up to eight digits typed at the start of an entry fill the buffer from slot 0, the last
  one typed lowest, above zeros; the first of them erases what was there.
\<close>

lemma run_digits:
  assumes len: "length (digitArray st) = 8" and fresh: "numeric st = 0"
  shows "ds \<noteq> [] \<Longrightarrow> length ds \<le> 8 \<Longrightarrow> \<forall>c \<in> set ds. is_digit c \<Longrightarrow>
    run oor ds st =
      st\<lparr>digitArray := rev (map (\<lambda>c. of_nat (digit_of c)) ds) @ replicate (8 - length ds) 0,
         numeric := of_nat (length ds), multiplier := 1, divider := 1\<rparr>"
proof (induction ds rule: rev_induct)
  case Nil
  then show ?case by simp
next
  case (snoc c ds)
  show ?case
  proof (cases "ds = []")
    case True
    with snoc.prems len fresh show ?thesis
      by (simp add: run_Cons run_Nil parseCommand_digit)
  next
    case False
    from snoc.prems have k: "length ds \<le> 7" and dig: "\<forall>c \<in> set ds. is_digit c"
      and c: "is_digit c" by simp_all
    have "unat (of_nat (length ds) :: byte) = length ds"
      using k by (simp add: unat_of_nat)
    with False have nz: "(of_nat (length ds) :: byte) \<noteq> 0"
      by auto
    from False k dig snoc.IH
    have ih: "run oor ds st =
      st\<lparr>digitArray := rev (map (\<lambda>c. of_nat (digit_of c)) ds) @ replicate (8 - length ds) 0,
         numeric := of_nat (length ds), multiplier := 1, divider := 1\<rparr>"
      by simp
    have "8 - length ds = Suc (7 - length ds)"
      using k by simp
    then have "replicate (8 - length ds) (0 :: byte) = replicate (7 - length ds) 0 @ [0]"
      by (simp add: replicate_append_same)
    then have bl:
      "butlast (rev (map (\<lambda>c. of_nat (digit_of c) :: byte) ds) @ replicate (8 - length ds) 0)
        = rev (map (\<lambda>c. of_nat (digit_of c)) ds) @ replicate (7 - length ds) 0"
      by (simp add: butlast_append)
    show ?thesis
      using c k nz
      by (simp add: run_snoc ih parseCommand_digit bl)
  qed
qed

text \<open>
  After such an entry \<open>parseValue\<close> converts the number that the digits spell, and both
  factors are 1.
\<close>

lemma value_of_digits:
  assumes len: "length (digitArray st) = 8"
    and fresh: "numeric st = 0" "decimal st = 0"
    and ds: "ds \<noteq> []" "length ds \<le> 8" "\<forall>c \<in> set ds. is_digit c"
    and t: "terminator t" "toupper t \<noteq> CHR ''K''" "toupper t \<noteq> CHR ''M''"
  shows "parseValue (parseCommand oor t (run oor ds st)) = fl32 (of_nat (spelled ds))"
    and "spelled ds = (\<Sum>i < 8. unat (digitArray (run oor ds st) ! i) * 10 ^ i)"
proof -
  let ?s = "run oor ds st"
  define a where
    "a = rev (map (\<lambda>c. of_nat (digit_of c) :: byte) ds) @ replicate (8 - length ds) 0"
  have s: "?s = st\<lparr>digitArray := a, numeric := of_nat (length ds), multiplier := 1,
      divider := 1\<rparr>"
    unfolding a_def using len fresh(1) ds by (rule run_digits)
  have un: "map unat a = rev (map digit_of ds) @ replicate (8 - length ds) 0"
    using ds(3) by (simp add: a_def rev_map unat_digit)
  have val: "digits_le (map unat a) = spelled ds"
    unfolding un by (simp add: digits_le_append digits_le_zeros digits_le_rev)
  have la: "length a = 8"
    using ds(2) by (simp add: a_def)
  have "\<forall>d \<in> set a. d \<le> 9"
    using ds(3) digit_of_le by (auto simp: a_def word_le_nat_alt unat_digit)
  then have f: "unat (parseValue_f ?s) = spelled ds"
    using la val by (simp add: s parseValue_f_digits)
  have fin: "parseValue (finalize ?s) = parseValue ?s"
    by (rule parseValue_cong) (simp_all add: s finalize_def fresh)
  have "parseValue ?s = fl32 (of_nat (unat (parseValue_f ?s)))"
    by (rule parseValue_unit) (simp_all add: s)
  then have "parseValue ?s = fl32 (of_nat (spelled ds))"
    unfolding f .
  with fin t show "parseValue (parseCommand oor t ?s) = fl32 (of_nat (spelled ds))"
    by (simp add: parseValue_terminator)
  have "digits_le (map unat a) = (\<Sum>i < 8. map unat a ! i * 10 ^ i)"
    using la by (simp add: digits_le_sum)
  also have "\<dots> = (\<Sum>i < 8. unat (a ! i) * 10 ^ i)"
    using la by (intro sum.cong refl) simp
  finally show "spelled ds = (\<Sum>i < 8. unat (digitArray ?s ! i) * 10 ^ i)"
    unfolding val by (simp add: s)
qed

lemma spelled_bound:
  assumes "\<forall>c \<in> set ds. is_digit c"
  shows "spelled ds < 10 ^ length ds"
proof -
  have "\<forall>d \<in> set (rev (map digit_of ds)). d \<le> 9"
    using assms digit_of_le by auto
  from digits_le_bound [OF this] show ?thesis
    by (simp add: digits_le_rev)
qed

text \<open>
  C3, as the code has it. From a state between entries (\<open>numeric\<close> and \<open>decimal\<close> are 0, as
  every terminator leaves them), one to eight digits and then a terminator that is not the
  suffix K or M give \<open>parseValue\<close> the number that the digits spell in the order typed,
  rounded to the \<open>double\<close> of the target. The value is that number itself when it is at
  most \<open>2 ^ 24\<close>, as every number of up to seven digits is. The number is also the sum of
  \<open>digitArray[i] * 10 ^ i\<close> over the eight slots, the last digit typed in slot 0.
\<close>

theorem digits_then_terminator:
  assumes len: "length (digitArray st) = 8"
    and fresh: "numeric st = 0" "decimal st = 0"
    and ds: "ds \<noteq> []" "length ds \<le> 8" "\<forall>c \<in> set ds. is_digit c"
    and t: "terminator t" "toupper t \<noteq> CHR ''K''" "toupper t \<noteq> CHR ''M''"
  shows "parseValue (parseCommand oor t (run oor ds st)) = fl32 (of_nat (spelled ds))
    \<and> (spelled ds \<le> 16777216 \<longrightarrow>
         parseValue (parseCommand oor t (run oor ds st)) = Finite (of_nat (spelled ds)))
    \<and> (length ds \<le> 7 \<longrightarrow>
         parseValue (parseCommand oor t (run oor ds st)) = Finite (of_nat (spelled ds)))
    \<and> spelled ds = (\<Sum>i < 8. unat (digitArray (run oor ds st) ! i) * 10 ^ i)"
proof -
  note v = value_of_digits [OF assms, of oor]
  have exact: "parseValue (parseCommand oor t (run oor ds st)) = Finite (of_nat (spelled ds))"
    if "spelled ds \<le> 16777216"
    unfolding v(1) using that by (rule fl32_nat)
  have "spelled ds \<le> 16777216" if "length ds \<le> 7"
  proof -
    have "spelled ds < 10 ^ length ds"
      using ds(3) by (rule spelled_bound)
    also have "(10 :: nat) ^ length ds \<le> 10 ^ 7"
      using that by (intro power_increasing) simp_all
    finally show ?thesis by simp
  qed
  with exact v show ?thesis by blast
qed

theorem digits_then_terminator_witness:
  "parseValue (parseCommand (\<lambda>_. 0) CHR ''S'' (run (\<lambda>_. 0) ''1234567'' initial))
     = Finite 1234567"
proof -
  have d: "''1234567'' \<noteq> []" "length ''1234567'' \<le> 8" "\<forall>c \<in> set ''1234567''. is_digit c"
    by (simp_all add: is_digit_def less_eq_char_def)
  have t: "terminator CHR ''S''" "toupper CHR ''S'' \<noteq> CHR ''K''"
    "toupper CHR ''S'' \<noteq> CHR ''M''"
    by (simp_all add: terminator_def is_digit_def toupper_def less_eq_char_def)
  have sp: "spelled ''1234567'' = 1234567"
    by (simp add: spelled_def digit_of_def)
  have "length ''1234567'' \<le> 7"
    by simp
  with digits_then_terminator [OF initial_fresh d t, of "\<lambda>_. 0"]
  have "parseValue (parseCommand (\<lambda>_. 0) CHR ''S'' (run (\<lambda>_. 0) ''1234567'' initial))
     = Finite (of_nat (spelled ''1234567''))"
    by blast
  then show ?thesis
    unfolding sp by simp
qed

text \<open>
  The eight digits of 16777217, which is \<open>2 ^ 24 + 1\<close>, are read as 16777216: the
  \<open>double\<close> of the target has no value between 16777216 and 16777218.
\<close>

theorem digits_then_terminator_counterexample:
  "spelled ''16777217'' = 16777217
   \<and> parseValue (parseCommand (\<lambda>_. 0) CHR ''S'' (run (\<lambda>_. 0) ''16777217'' initial))
       = Finite 16777216
   \<and> parseValue (parseCommand (\<lambda>_. 0) CHR ''S'' (run (\<lambda>_. 0) ''16777217'' initial))
       \<noteq> Finite (of_nat (spelled ''16777217''))"
proof -
  have d: "''16777217'' \<noteq> []" "length ''16777217'' \<le> 8"
    "\<forall>c \<in> set ''16777217''. is_digit c"
    by (simp_all add: is_digit_def less_eq_char_def)
  have t: "terminator CHR ''S''" "toupper CHR ''S'' \<noteq> CHR ''K''"
    "toupper CHR ''S'' \<noteq> CHR ''M''"
    by (simp_all add: terminator_def is_digit_def toupper_def less_eq_char_def)
  have sp: "spelled ''16777217'' = 16777217"
    by (simp add: spelled_def digit_of_def)
  have "fl32 16777217 = Finite 16777216"
    by (simp add: fl32_compute)
  with value_of_digits(1) [OF initial_fresh d t, of "\<lambda>_. 0"] sp show ?thesis
    by simp
qed

section \<open>Two entries traced\<close>

lemma run_1_dot_5:
  assumes "length (digitArray st) = 8" "numeric st = 0" "decimal st = 0"
  shows "run oor ''1.5'' st =
    st\<lparr>digitArray := [5, 1, 0, 0, 0, 0, 0, 0], numeric := 2, decimal := 2,
       multiplier := 1, divider := 1\<rparr>"
  using assms
  by (simp add: run_Cons run_Nil parseCommand_digit parseCommand_dot char_class
      digit_of_vals zeros7)

text \<open>
  C9. From a state between entries, after \<open>1\<close>, \<open>.\<close> and \<open>5\<close> the counters \<open>numeric\<close> and
  \<open>decimal\<close> are both 2; the terminator sets \<open>divider\<close> to \<open>powerOf10 (2 - 2 + 1)\<close>, which
  is 10, the sum over the buffer is 15, and \<open>S\<close> reads the value 15 / 10, that is 1.5.
\<close>

theorem one_point_five:
  assumes "length (digitArray st) = 8" "numeric st = 0" "decimal st = 0"
  shows "numeric (run oor ''1.5'' st) = 2 \<and> decimal (run oor ''1.5'' st) = 2
    \<and> divider (finalize (run oor ''1.5'' st)) = powerOf10 (2 - 2 + 1)
    \<and> divider (finalize (run oor ''1.5'' st)) = 10
    \<and> parseValue_f (finalize (run oor ''1.5'' st)) = 15
    \<and> parseValue (parseCommand oor CHR ''S'' (run oor ''1.5'' st)) = Finite (15 / 10)
    \<and> parseValue (parseCommand oor CHR ''S'' (run oor ''1.5'' st)) = Finite (3 / 2)"
proof -
  let ?s = "run oor ''1.5'' st"
  note s = run_1_dot_5 [OF assms, of oor]
  have d: "divider (finalize ?s) = 10"
    by (simp add: s finalize_fields powerOf10_small)
  have f: "parseValue_f (finalize ?s) = 15"
    by (simp add: parseValue_f_8 [where ?a0.0 = 5 and ?a1.0 = 1 and ?a2.0 = 0 and ?a3.0 = 0
          and ?a4.0 = 0 and ?a5.0 = 0 and ?a6.0 = 0 and ?a7.0 = 0] finalize_fields s)
  have m: "multiplier (finalize ?s) = 1"
    by (simp add: s finalize_fields)
  have v: "parseValue (finalize ?s) = Finite (15 / 10)"
    by (simp add: parseValue_def d f m dbl_compute)
  have "parseValue (parseCommand oor CHR ''S'' ?s) = parseValue (finalize ?s)"
    by (rule parseValue_terminator) (simp_all add: char_class)
  with v d f show ?thesis
    by (simp add: s powerOf10_small)
qed

theorem one_point_five_witness:
  "parseValue (parseCommand (\<lambda>_. 0) CHR ''S'' (run (\<lambda>_. 0) ''1.5'' initial)) = Finite (3 / 2)"
  using one_point_five [OF initial_fresh, of "\<lambda>_. 0"] by simp

lemma run_5K:
  assumes "length (digitArray st) = 8" "numeric st = 0" "decimal st = 0"
  shows "run oor ''5K'' st =
    st\<lparr>digitArray := [5, 0, 0, 0, 0, 0, 0, 0], numeric := 0, decimal := 0,
       multiplier := 1000, divider := 1\<rparr>"
  using assms
  by (simp add: run_Cons run_Nil parseCommand_digit parseCommand_K char_class
      digit_of_vals zeros7 finalize_def)

lemma run_5K0:
  assumes "length (digitArray st) = 8" "numeric st = 0" "decimal st = 0"
  shows "run oor ''5K0'' st =
    st\<lparr>digitArray := [0, 0, 0, 0, 0, 0, 0, 0], numeric := 1, decimal := 0,
       multiplier := 1, divider := 1\<rparr>"
proof -
  have "run oor ''5K0'' st = parseCommand oor CHR ''0'' (run oor ''5K'' st)"
    by (simp add: run_Cons run_Nil)
  then show ?thesis
    by (simp add: run_5K [OF assms] parseCommand_digit char_class digit_of_vals zeros7)
qed

lemma value_5K0S:
  assumes "length (digitArray st) = 8" "numeric st = 0" "decimal st = 0"
  shows "parseValue (parseCommand oor CHR ''S'' (run oor ''5K0'' st)) = Finite 0"
proof -
  let ?s = "run oor ''5K0'' st"
  note s = run_5K0 [OF assms, of oor]
  have f: "parseValue_f (finalize ?s) = 0"
    by (simp add: parseValue_f_8 [where ?a0.0 = 0 and ?a1.0 = 0 and ?a2.0 = 0 and ?a3.0 = 0
          and ?a4.0 = 0 and ?a5.0 = 0 and ?a6.0 = 0 and ?a7.0 = 0] finalize_fields s)
  have d: "divider (finalize ?s) = 1" "multiplier (finalize ?s) = 1"
    by (simp_all add: finalize_fields s)
  have v: "parseValue (finalize ?s) = Finite 0"
    by (simp add: parseValue_def f d dbl_compute)
  have "parseValue (parseCommand oor CHR ''S'' ?s) = parseValue (finalize ?s)"
    by (rule parseValue_terminator) (simp_all add: char_class)
  with v show ?thesis by simp
qed

text \<open>
  C2, as the code has it. \<open>K\<close> runs through the terminator branch: it sets \<open>multiplier\<close> to
  1000 and \<open>numeric\<close> back to 0, so the \<open>0\<close> that follows is the first digit of a new entry.
  It erases the buffer, the 5 included, and sets \<open>multiplier\<close> to 1; \<open>S\<close> then reads 0.
\<close>

theorem five_K_zero:
  assumes "length (digitArray st) = 8" "numeric st = 0" "decimal st = 0"
  shows "multiplier (run oor ''5K'' st) = 1000 \<and> numeric (run oor ''5K'' st) = 0
    \<and> digitArray (run oor ''5K'' st) = [5, 0, 0, 0, 0, 0, 0, 0]
    \<and> digitArray (run oor ''5K0'' st) = [0, 0, 0, 0, 0, 0, 0, 0]
    \<and> multiplier (run oor ''5K0'' st) = 1
    \<and> parseValue (parseCommand oor CHR ''S'' (run oor ''5K0'' st)) = Finite 0"
  using run_5K [OF assms, of oor] run_5K0 [OF assms, of oor] value_5K0S [OF assms, of oor]
  by simp

theorem five_K_zero_witness:
  "multiplier (run (\<lambda>_. 0) ''5K'' initial) = 1000
   \<and> parseValue (parseCommand (\<lambda>_. 0) CHR ''S'' (run (\<lambda>_. 0) ''5K0'' initial)) = Finite 0"
  using five_K_zero [OF initial_fresh, of "\<lambda>_. 0"] by simp

text \<open>From the state after \<open>setup\<close>: the value is not 50, and slot 1 does not hold the 5.\<close>

theorem five_K_zero_counterexample:
  "parseValue (parseCommand (\<lambda>_. 0) CHR ''S'' (run (\<lambda>_. 0) ''5K0'' initial)) \<noteq> Finite 50
   \<and> numeric (run (\<lambda>_. 0) ''5K'' initial) = 0
   \<and> digitArray (run (\<lambda>_. 0) ''5K0'' initial) ! 1 \<noteq> 5"
  using value_5K0S [OF initial_fresh, of "\<lambda>_. 0"] run_5K [OF initial_fresh, of "\<lambda>_. 0"]
    run_5K0 [OF initial_fresh, of "\<lambda>_. 0"]
  by simp

section \<open>Terminators without a command\<close>

text \<open>
  C1, as the code has it. A terminator with no case in the \<open>switch\<close> still runs lines 171
  to 175: \<open>numeric\<close> and \<open>decimal\<close> become 0 and \<open>divider\<close> takes the power of ten when both
  were set. The buffer, \<open>multiplier\<close>, \<open>waveType\<close>, \<open>echo\<close> and \<open>debug\<close> stay and nothing is
  written to the chip; between entries the whole state stays.
\<close>

theorem unrecognized_terminator:
  assumes "terminator c" and "\<not> recognized (toupper c)"
  shows "digitArray (parseCommand oor c st) = digitArray st
    \<and> multiplier (parseCommand oor c st) = multiplier st
    \<and> waveType (parseCommand oor c st) = waveType st
    \<and> echo (parseCommand oor c st) = echo st
    \<and> debug (parseCommand oor c st) = debug st
    \<and> chip (parseCommand oor c st) = chip st
    \<and> numeric (parseCommand oor c st) = 0
    \<and> decimal (parseCommand oor c st) = 0
    \<and> divider (parseCommand oor c st) =
        (if decimal st \<noteq> 0 \<and> numeric st \<noteq> 0 then powerOf10 (numeric st - decimal st + 1)
         else divider st)
    \<and> (numeric st = 0 \<and> decimal st = 0 \<longrightarrow> parseCommand oor c st = st)"
  using assms by (simp add: parseCommand_unrecognized finalize_fields finalize_idle)

theorem unrecognized_terminator_witness:
  "parseCommand (\<lambda>_. 0) CHR ''X'' initial = initial"
  using unrecognized_terminator [OF X_unrecognized, of "\<lambda>_. 0" initial]
  by (simp add: initial_fresh)

text \<open>After \<open>1.5\<close> an \<open>X\<close> changes both counters and the divider.\<close>

theorem unrecognized_terminator_counterexample:
  "numeric (run (\<lambda>_. 0) ''1.5'' initial) = 2
   \<and> numeric (parseCommand (\<lambda>_. 0) CHR ''X'' (run (\<lambda>_. 0) ''1.5'' initial)) = 0
   \<and> decimal (run (\<lambda>_. 0) ''1.5'' initial) = 2
   \<and> decimal (parseCommand (\<lambda>_. 0) CHR ''X'' (run (\<lambda>_. 0) ''1.5'' initial)) = 0
   \<and> divider (run (\<lambda>_. 0) ''1.5'' initial) = 1
   \<and> divider (parseCommand (\<lambda>_. 0) CHR ''X'' (run (\<lambda>_. 0) ''1.5'' initial)) = 10
   \<and> parseCommand (\<lambda>_. 0) CHR ''X'' (run (\<lambda>_. 0) ''1.5'' initial)
       \<noteq> run (\<lambda>_. 0) ''1.5'' initial"
proof -
  let ?s = "run (\<lambda>_. 0) ''1.5'' initial"
  note s = run_1_dot_5 [OF initial_fresh, of "\<lambda>_. 0"]
  have x: "parseCommand (\<lambda>_. 0) CHR ''X'' ?s = finalize ?s"
    by (rule parseCommand_unrecognized) (rule X_unrecognized)+
  have a: "numeric ?s = 2" "decimal ?s = 2" "divider ?s = 1"
    by (simp_all add: s)
  have b: "numeric (finalize ?s) = 0" "decimal (finalize ?s) = 0" "divider (finalize ?s) = 10"
    by (simp_all add: finalize_fields a powerOf10_small)
  have "finalize ?s \<noteq> ?s"
  proof
    assume "finalize ?s = ?s"
    then have "numeric (finalize ?s) = numeric ?s" by simp
    with a(1) b(1) show False by simp
  qed
  with a b show ?thesis
    unfolding x by simp
qed

section \<open>The commands that write to the chip\<close>

text \<open>
  C8. Whatever the state, \<open>O\<close> (or \<open>o\<close>) appends the single word 0x2100 to the words
  written to the chip and leaves \<open>waveType\<close> as it was.
\<close>

theorem off_command:
  "chip (parseCommand oor CHR ''O'' st) = chip st @ [0x2100]
   \<and> waveType (parseCommand oor CHR ''O'' st) = waveType st
   \<and> chip (parseCommand oor CHR ''o'' st) = chip st @ [0x2100]
   \<and> waveType (parseCommand oor CHR ''o'' st) = waveType st"
  by (simp add: parseCommand_terminator toupper_cmds dispatch_def AD9833_reset_def
      AD9833_writeRegister_def finalize_fields)

text \<open>
  C5. \<open>AD9833_setFrequency\<close> appends exactly three words, in this order: the low 14 bits of
  \<open>regFrequency\<close> or 0x4000, its bits 14 to 27 shifted down or 0x4000, and 0x2000 or the wave
  type. So do the commands \<open>S\<close>, \<open>T\<close> and \<open>N\<close>, with the bits of sine, triangle and sine, and
  their lower-case forms write the same words.
\<close>

theorem three_words:
  "chip (AD9833_setFrequency oor b st) =
     chip st @ [ucast (regFrequency oor b st AND 0x3FFF) OR 0x4000,
       ucast (drop_bit 14 (regFrequency oor b st AND 0xFFFC000)) OR 0x4000,
       0x2000 OR waveType (AD9833_setFrequency oor b st)]
   \<and> chip (parseCommand oor CHR ''S'' st) =
     chip st @ [lsbWord (regFrequency oor True ((finalize st)\<lparr>waveType := wSine\<rparr>)),
       msbWord (regFrequency oor True ((finalize st)\<lparr>waveType := wSine\<rparr>)),
       0x2000 OR wSine]
   \<and> chip (parseCommand oor CHR ''T'' st) =
     chip st @ [lsbWord (regFrequency oor True ((finalize st)\<lparr>waveType := wTriangle\<rparr>)),
       msbWord (regFrequency oor True ((finalize st)\<lparr>waveType := wTriangle\<rparr>)),
       0x2000 OR wTriangle]
   \<and> chip (parseCommand oor CHR ''N'' st) =
     chip st @ [lsbWord (regFrequency oor False ((finalize st)\<lparr>waveType := wSine\<rparr>)),
       msbWord (regFrequency oor False ((finalize st)\<lparr>waveType := wSine\<rparr>)),
       0x2000 OR wSine]
   \<and> parseCommand oor CHR ''s'' st = parseCommand oor CHR ''S'' st
   \<and> parseCommand oor CHR ''t'' st = parseCommand oor CHR ''T'' st
   \<and> parseCommand oor CHR ''n'' st = parseCommand oor CHR ''N'' st"
  by (simp add: parseCommand_S parseCommand_T parseCommand_N AD9833_setFrequency_chip
      AD9833_setFrequency_waveType halfRate_sine_triangle finalize_fields
      lsbWord_def msbWord_def)

section \<open>The wave type over a run\<close>

lemma dispatch_waveType:
  "waveType (dispatch oor u s) = waveType s \<or> waveType (dispatch oor u s) = wSine
   \<or> waveType (dispatch oor u s) = wTriangle"
  by (simp add: dispatch_def AD9833_setFrequency_waveType halfRate_sine_triangle
      AD9833_reset_def AD9833_writeRegister_def)

lemma parseCommand_waveType:
  "waveType (parseCommand oor c st) = waveType st \<or> waveType (parseCommand oor c st) = wSine
   \<or> waveType (parseCommand oor c st) = wTriangle"
  using dispatch_waveType [of oor "toupper c" "finalize st"]
  by (simp add: parseCommand_def finalize_fields)

lemma run_waveType: "waveType (run oor cs initial) \<in> {wReset, wSine, wTriangle}"
proof (induction cs rule: rev_induct)
  case Nil
  show ?case
    by (simp add: run_Nil initial_def AD9833_reset_def AD9833_writeRegister_def)
next
  case (snoc c cs)
  with parseCommand_waveType [of oor c "run oor cs initial"] show ?case
    by (auto simp: run_snoc)
qed

text \<open>
  C10. After every input the wave type is one of reset, sine and triangle, never one of the
  two rectangle values; and the states in which the commands \<open>N\<close>, \<open>S\<close> and \<open>T\<close> enter
  \<open>AD9833_setFrequency\<close> do not meet the condition of its rectangle branch.
\<close>

theorem waveType_never_rectangle:
  "waveType (run oor cs initial) \<in> {wReset, wSine, wTriangle}
   \<and> waveType (run oor cs initial) \<noteq> wRectangle
   \<and> waveType (run oor cs initial) \<noteq> wRectangle2
   \<and> \<not> halfRate b ((finalize (run oor cs initial))\<lparr>waveType := wSine\<rparr>)
   \<and> \<not> halfRate b ((finalize (run oor cs initial))\<lparr>waveType := wTriangle\<rparr>)"
  using run_waveType [of oor cs] wave_distinct
  by (auto simp: halfRate_sine_triangle)


section \<open>Values sent to the encoder\<close>

lemma frequency_sine:
  "frequency True (s\<lparr>waveType := wSine\<rparr>) = dmul (parseValue s) scale"
proof -
  have "parseValue (s\<lparr>waveType := wSine\<rparr>) = parseValue s"
    by (rule parseValue_cong) simp_all
  then show ?thesis
    by (simp add: frequency_def halfRate_sine_triangle scaled_def)
qed

lemma emittedValue_S:
  "emittedValue st (parseCommand oor CHR ''S'' st)
     = regFrequency oor True ((finalize st)\<lparr>waveType := wSine\<rparr>)"
proof -
  let ?t = "(finalize st)\<lparr>waveType := wSine\<rparr>"
  have ch: "chip st = chip ?t"
    by (simp add: finalize_fields)
  have "emitted st (AD9833_setFrequency oor True ?t)
      = emitted ?t (AD9833_setFrequency oor True ?t)"
    by (rule emitted_cong [OF ch])
  then have "emittedValue st (AD9833_setFrequency oor True ?t)
      = emittedValue ?t (AD9833_setFrequency oor True ?t)"
    by (simp add: emittedValue_def)
  then show ?thesis
    by (simp add: parseCommand_S emittedValue_setFrequency)
qed


lemma value_1000000:
  assumes "digitArray st = [0, 0, 0, 0, 0, 0, 1, 0]" "multiplier st = 1" "divider st = 1"
  shows "parseValue st = Finite 1000000"
  by (simp add: parseValue_8 [OF assms(1)] assms(2,3) dbl_compute)

lemma value_5000000:
  assumes "digitArray st = [0, 0, 0, 0, 0, 0, 5, 0]" "multiplier st = 1" "divider st = 1"
  shows "parseValue st = Finite 5000000"
  by (simp add: parseValue_8 [OF assms(1)] assms(2,3) dbl_compute)


lemma value_440:
  assumes "digitArray st = [0, 4, 4, 0, 0, 0, 0, 0]" "multiplier st = 1" "divider st = 1"
  shows "parseValue st = Finite 440"
  by (simp add: parseValue_8 [OF assms(1)] assms(2,3) dbl_compute)

text \<open>Their products with the scaling constant, in the \<open>double\<close> of the target.\<close>

lemma scaled_values:
  "dmul (Finite 100000000) scale = Finite 1073741824"
  "dmul (Finite 1000000) scale = Finite 10737418"
  "dmul (Finite 5000000) scale = Finite 53687092"
  "dmul (Finite 401000000) scale = Finite 4305704448"
  "dmul (Finite 440) scale = Finite (4837851 / 1024)"
  by (simp_all add: scale_value dmul_def fl32_compute)

lemma c_round_values:
  "c_round 1073741824 = 1073741824" "c_round 53687092 = 53687092"
  "c_round 4305704448 = 4305704448" "c_round (4837851 / 1024) = 4724"
  by (simp_all add: c_round_def floor_rat_numeral)


section \<open>Rounding and the clamp\<close>




section \<open>The rectangle branch\<close>

text \<open>
  C6, as the code has it. Entered with the rectangle wave type, the encoder compares the
  value already scaled to register units with 12000000: below it, the wave type becomes
  \<open>wRectangle2\<close> and the scaled value is doubled, exactly, before it is rounded; from
  12000000 on, and for a scaled value that is not finite, nothing changes. The commands \<open>S\<close> and \<open>T\<close> set their own wave type before
  the encoder runs, so through them a rectangle wave type ends as sine or triangle.
\<close>

theorem rectangle_half_rate:
  assumes "waveType st = wRectangle"
  shows "scaled True st = dmul (parseValue st) scale
    \<and> (scaled True st = Finite y \<and> y < 12000000 \<longrightarrow>
            waveType (AD9833_setFrequency oor True st) = wRectangle2
            \<and> frequency True st = Finite (2 * y))
    \<and> (scaled True st = Finite y \<and> 12000000 \<le> y \<longrightarrow>
            waveType (AD9833_setFrequency oor True st) = wRectangle
            \<and> frequency True st = Finite y)
    \<and> (scaled True st = NonFinite \<longrightarrow>
            waveType (AD9833_setFrequency oor True st) = wRectangle
            \<and> frequency True st = NonFinite)
    \<and> rounded oor True st = to_ulong oor (frequency True st)
    \<and> waveType (parseCommand oor CHR ''S'' st) = wSine
    \<and> waveType (parseCommand oor CHR ''T'' st) = wTriangle"
proof -
  have sc: "scaled True st = dmul (parseValue st) scale"
    by (simp add: scaled_def)
  have 1: "waveType (AD9833_setFrequency oor True st) = wRectangle2
      \<and> frequency True st = Finite (2 * y)"
    if y: "scaled True st = Finite y" and lt: "y < 12000000"
  proof -
    from y obtain v where v: "parseValue st = Finite v"
      and p: "fl32 (v * (11258999 / 1048576)) = Finite y"
      by (auto simp: scaled_def dmul_def scale_value split: double.splits)
    from parseValue_float [OF v] obtain q where q: "0 \<le> q" "fl32 q = Finite v"
      by blast
    have "0 \<le> v"
      using q(2,1) by (rule fl32_nonneg)
    then have a0: "0 \<le> v * (11258999 / 1048576)"
      by simp
    from lt have "2 * y < 340282366920938463463374607431768211456"
      by simp
    with p a0 have "fl32 (2 * y) = Finite (2 * y)"
      by (rule fl32_double)
    then have dbl: "dmul (Finite y) (fl32 2) = Finite (2 * y)"
      by (simp add: dmul_def double_consts mult.commute)
    have "halfRate True st"
      using assms y lt by (simp add: halfRate_def dless_def double_consts)
    with dbl show ?thesis
      by (simp add: AD9833_setFrequency_waveType frequency_def y)
  qed
  have 2: "waveType (AD9833_setFrequency oor True st) = wRectangle
      \<and> frequency True st = Finite y"
    if y: "scaled True st = Finite y" and ge: "12000000 \<le> y"
  proof -
    have "\<not> halfRate True st"
      using y ge by (simp add: halfRate_def dless_def double_consts)
    then show ?thesis
      using assms by (simp add: AD9833_setFrequency_waveType frequency_def y)
  qed
  have 3: "waveType (AD9833_setFrequency oor True st) = wRectangle
      \<and> frequency True st = NonFinite"
    if n: "scaled True st = NonFinite"
  proof -
    have "\<not> halfRate True st"
      using n by (simp add: halfRate_def dless_def)
    then show ?thesis
      using assms by (simp add: AD9833_setFrequency_waveType frequency_def n)
  qed
  have 4: "waveType (parseCommand oor CHR ''S'' st) = wSine"
    "waveType (parseCommand oor CHR ''T'' st) = wTriangle"
    by (simp_all add: parseCommand_S parseCommand_T AD9833_setFrequency_waveType
        halfRate_sine_triangle)
  have 5: "rounded oor True st = to_ulong oor (frequency True st)"
    by (simp add: rounded_def)
  from sc 1 2 3 4 5 show ?thesis by blast
qed

text \<open>At 1 MHz the scaled value is 10737418 and the branch is taken.\<close>

theorem rectangle_half_rate_witness:
  "waveType (AD9833_setFrequency (\<lambda>_. 0) True
      (initial\<lparr>digitArray := [0, 0, 0, 0, 0, 0, 1, 0], waveType := wRectangle\<rparr>)) = wRectangle2
   \<and> frequency True (initial\<lparr>digitArray := [0, 0, 0, 0, 0, 0, 1, 0], waveType := wRectangle\<rparr>)
       = Finite 21474836"
proof -
  let ?s = "initial\<lparr>digitArray := [0, 0, 0, 0, 0, 0, 1, 0], waveType := wRectangle\<rparr>"
  have v: "parseValue ?s = Finite 1000000"
    by (rule value_1000000) (simp_all add: initial_fields)
  have y: "scaled True ?s = Finite 10737418"
    by (simp add: scaled_def v scaled_values)
  have w: "waveType ?s = wRectangle" by simp
  from rectangle_half_rate [OF w, of 10737418 "\<lambda>_. 0"] y show ?thesis by simp
qed

text \<open>
  At 5 MHz the scaled value is 53687092: the wave type stays \<open>wRectangle\<close> and the value is
  not doubled; through the command \<open>S\<close> the wave type becomes sine.
\<close>

theorem rectangle_5MHz_counterexample:
  "parseValue (initial\<lparr>digitArray := [0, 0, 0, 0, 0, 0, 5, 0], waveType := wRectangle\<rparr>)
     = Finite 5000000
   \<and> waveType (AD9833_setFrequency (\<lambda>_. 0) True
      (initial\<lparr>digitArray := [0, 0, 0, 0, 0, 0, 5, 0], waveType := wRectangle\<rparr>)) \<noteq> wRectangle2
   \<and> scaled True (initial\<lparr>digitArray := [0, 0, 0, 0, 0, 0, 5, 0], waveType := wRectangle\<rparr>)
       = Finite 53687092
   \<and> frequency True (initial\<lparr>digitArray := [0, 0, 0, 0, 0, 0, 5, 0], waveType := wRectangle\<rparr>)
       = Finite 53687092
   \<and> frequency True (initial\<lparr>digitArray := [0, 0, 0, 0, 0, 0, 5, 0], waveType := wRectangle\<rparr>)
       \<noteq> Finite (2 * 53687092)
   \<and> waveType (parseCommand (\<lambda>_. 0) CHR ''S''
      (initial\<lparr>digitArray := [0, 0, 0, 0, 0, 0, 5, 0], waveType := wRectangle\<rparr>)) \<noteq> wRectangle2"
proof -
  let ?s = "initial\<lparr>digitArray := [0, 0, 0, 0, 0, 0, 5, 0], waveType := wRectangle\<rparr>"
  have v: "parseValue ?s = Finite 5000000"
    by (rule value_5000000) (simp_all add: initial_fields)
  have y: "scaled True ?s = Finite 53687092"
    by (simp add: scaled_def v scaled_values)
  have h: "\<not> halfRate True ?s"
    by (simp add: halfRate_def y dless_def double_consts)
  have f: "frequency True ?s = Finite 53687092"
    by (simp add: frequency_def h y)
  have w: "waveType (AD9833_setFrequency (\<lambda>_. 0) True ?s) = wRectangle"
    by (simp add: AD9833_setFrequency_waveType h)
  have s: "waveType (parseCommand (\<lambda>_. 0) CHR ''S'' ?s) = wSine"
    by (simp add: parseCommand_S AD9833_setFrequency_waveType halfRate_sine_triangle)
  from v y f w s show ?thesis
    using wave_distinct by (simp add: wRectangle_def wRectangle2_def)
qed

section \<open>The frequency written for a value in range\<close>

text \<open>
  C4, as the code has it. After any input, when the value \<open>V\<close> that a terminator finalizes
  is finite and \<open>V * 2 ^ 28 / 25000000\<close> is below \<open>2 ^ 27\<close>, the command \<open>S\<close> or \<open>T\<close> (in
  either case) writes three words, and the low 14 bits of the second, shifted up by 14,
  joined with the low 14 bits of the first are the rounding of the product that the code
  computes: \<open>V\<close> times the constant \<open>11258999 / 1048576\<close> that \<open>0x10000000UL / 25000000.0\<close>
  is in the \<open>double\<close> of the target, rounded to that \<open>double\<close>.
\<close>

theorem frequency_round_trip:
  assumes c: "c = CHR ''S'' \<or> c = CHR ''s'' \<or> c = CHR ''T'' \<or> c = CHR ''t''"
    and V: "parseValue (finalize (run oor cs initial)) = Finite V"
    and lt: "V * (2 ^ 28 / 25000000) < 2 ^ 27"
  shows "length (emitted (run oor cs initial) (parseCommand oor c (run oor cs initial))) = 3
    \<and> (\<exists>x. dmul (Finite V) scale = Finite x
          \<and> fl32 (V * (11258999 / 1048576)) = Finite x
          \<and> uint (emittedValue (run oor cs initial) (parseCommand oor c (run oor cs initial)))
              = round x)"
proof -
  let ?s = "run oor cs initial"
  let ?a = "V * (11258999 / 1048576)"
  from c obtain w where w: "w = wSine \<or> w = wTriangle"
    and pc: "parseCommand oor c ?s = AD9833_setFrequency oor True ((finalize ?s)\<lparr>waveType := w\<rparr>)"
    using parseCommand_S [of c oor ?s] parseCommand_T [of c oor ?s] by blast
  let ?t = "(finalize ?s)\<lparr>waveType := w\<rparr>"
  from parseValue_float [OF V] obtain q where q: "0 \<le> q" "fl32 q = Finite V"
    by blast
  have V0: "0 \<le> V"
    using q(2,1) by (rule fl32_nonneg)
  have Vle: "V \<le> 12499999"
  proof (cases "8388608 \<le> V")
    case True
    from fl32_integral [OF q(2) q(1) True] obtain z where z: "V = of_int z"
      by blast
    from lt have "V < 12500000" by simp
    then have "z < 12500000" unfolding z by simp
    then have "z \<le> 12499999" by simp
    then show ?thesis unfolding z by simp
  next
    case False
    then show ?thesis by simp
  qed
  have a0: "0 \<le> ?a"
    using V0 by simp
  have "?a \<le> 12499999 * (11258999 / 1048576)"
    using Vle by simp
  then have a1: "?a < 134217724"
    by simp
  from fl32_2p27 [OF a0 a1] obtain x where x: "fl32 ?a = Finite x" "x \<le> 134217720"
    by blast
  have x0: "0 \<le> x"
    using x(1) a0 by (rule fl32_nonneg)
  have sc: "dmul (Finite V) scale = Finite x"
    using x(1) by (simp add: dmul_def scale_value)
  have "x \<le> of_int 134217720"
    using x(2) by simp
  then have "\<lfloor>x + 1 / 2\<rfloor> \<le> 134217720"
    using x0 by (rule c_round_le)
  then have "round x \<le> 134217720"
    by (simp add: round_def)
  moreover have "0 \<le> round x"
    using x0 by (simp add: round_def)
  ultimately have r: "0 \<le> c_round x" "c_round x < 2 ^ 32" "c_round x \<le> 0x7FFFFFF"
    unfolding c_round_nonneg [OF x0] by simp_all
  have "parseValue ?t = parseValue (finalize ?s)"
    by (rule parseValue_cong) simp_all
  with V have pv: "parseValue ?t = Finite V"
    by simp
  have nh: "\<not> halfRate True ?t"
    using w by (auto simp: halfRate_sine_triangle)
  have fr: "frequency True ?t = Finite x"
    by (simp add: frequency_def nh scaled_def pv sc)
  have ch: "chip ?s = chip ?t"
    by (simp add: finalize_fields)
  have e: "emitted ?s (parseCommand oor c ?s) = emitted ?t (AD9833_setFrequency oor True ?t)"
    unfolding pc by (rule emitted_cong [OF ch])
  have "uint (emittedValue ?t (AD9833_setFrequency oor True ?t)) = min (c_round x) 0x7FFFFFF"
    using fr r(1,2) by (rule uint_emittedValue)
  with r(3) have "uint (emittedValue ?t (AD9833_setFrequency oor True ?t)) = c_round x"
    by (simp only: min_absorb1)
  then have "uint (emittedValue ?t (AD9833_setFrequency oor True ?t)) = round x"
    by (simp only: c_round_nonneg [OF x0])
  then have "uint (emittedValue ?s (parseCommand oor c ?s)) = round x"
    by (simp add: emittedValue_def e)
  moreover have "length (emitted ?s (parseCommand oor c ?s)) = 3"
    by (simp add: e emitted_setFrequency)
  ultimately show ?thesis
    using sc x(1) by blast
qed

text \<open>The digits 440 and then \<open>S\<close>: the product is 4837851 / 1024 and the words carry 4724.\<close>

theorem frequency_round_trip_witness:
  "uint (emittedValue (run (\<lambda>_. 0) ''440'' initial)
     (parseCommand (\<lambda>_. 0) CHR ''S'' (run (\<lambda>_. 0) ''440'' initial))) = 4724"
proof -
  let ?s = "run (\<lambda>_. 0) ''440'' initial"
  have c: "CHR ''S'' = CHR ''S'' \<or> CHR ''S'' = CHR ''s'' \<or> CHR ''S'' = CHR ''T''
      \<or> CHR ''S'' = CHR ''t''"
    by simp
  have d: "''440'' \<noteq> []" "length ''440'' \<le> 8" "\<forall>c \<in> set ''440''. is_digit c"
    by (simp_all add: is_digit_def less_eq_char_def)
  note s = run_digits [OF initial_fresh(1,2) d, of "\<lambda>_. 0"]
  have V: "parseValue (finalize ?s) = Finite 440"
    by (rule value_440)
      (simp_all add: s finalize_fields digit_of_def initial_fresh initial_fields
        eval_nat_numeral)
  have lt: "440 * (2 ^ 28 / 25000000) < (2 ^ 27 :: rat)"
    by simp
  from frequency_round_trip [OF c V lt] obtain x
    where "fl32 (440 * (11258999 / 1048576)) = Finite x"
      and e: "uint (emittedValue ?s (parseCommand (\<lambda>_. 0) CHR ''S'' ?s)) = round x"
    by blast
  then have xv: "x = 4837851 / 1024"
    by (simp add: fl32_compute)
  have "round x = c_round x"
    unfolding xv by (rule c_round_nonneg [symmetric]) simp
  also have "\<dots> = 4724"
    unfolding xv by (rule c_round_values(4))
  finally show ?thesis
    unfolding e .
qed

text \<open>
  The digits 5000000 and then \<open>S\<close>: the claim's bound holds and the rounding of
  \<open>5000000 * 2 ^ 28 / 25000000\<close>, which is 53687091.2, is 53687091; the product that
  the code computes is 53687092, and that is what the words carry.
\<close>

theorem frequency_round_trip_counterexample:
  "parseValue (finalize (run (\<lambda>_. 0) ''5000000'' initial)) = Finite 5000000
   \<and> 5000000 * (2 ^ 28 / 25000000) < (2 ^ 27 :: rat)
   \<and> round (5000000 * (2 ^ 28 / 25000000) :: rat) = 53687091
   \<and> uint (emittedValue (run (\<lambda>_. 0) ''5000000'' initial)
       (parseCommand (\<lambda>_. 0) CHR ''S'' (run (\<lambda>_. 0) ''5000000'' initial))) = 53687092"
proof -
  let ?s = "run (\<lambda>_. 0) ''5000000'' initial"
  let ?t = "(finalize ?s)\<lparr>waveType := wSine\<rparr>"
  have d: "''5000000'' \<noteq> []" "length ''5000000'' \<le> 8" "\<forall>c \<in> set ''5000000''. is_digit c"
    by (simp_all add: is_digit_def less_eq_char_def)
  note s = run_digits [OF initial_fresh(1,2) d, of "\<lambda>_. 0"]
  have V: "parseValue (finalize ?s) = Finite 5000000"
    by (rule value_5000000)
      (simp_all add: s finalize_fields digit_of_def initial_fresh initial_fields
        eval_nat_numeral)
  have f: "frequency True ?t = Finite 53687092"
    by (simp only: frequency_sine V scaled_values)
  have "uint (emittedValue ?t (AD9833_setFrequency (\<lambda>_. 0) True ?t))
      = min (c_round 53687092) 0x7FFFFFF"
    using f by (rule uint_emittedValue) (simp_all add: c_round_values)
  then have "uint (regFrequency (\<lambda>_. 0) True ?t) = 53687092"
    by (simp add: emittedValue_setFrequency c_round_values)
  then have e: "uint (emittedValue ?s (parseCommand (\<lambda>_. 0) CHR ''S'' ?s)) = 53687092"
    by (simp only: emittedValue_S)
  have "round (5000000 * (2 ^ 28 / 25000000) :: rat) = 53687091"
    unfolding round_def by (rule floor_unique) simp_all
  with V e show ?thesis by simp
qed


end
